theory Spec2Isabelle
  imports Complex_Main
begin

section \<open>JavaScript numbers and strings\<close>

text \<open>
  A JavaScript number is an IEEE 754 double. A finite one is modelled by its value, a
  rational; \<^verbatim>\<open>Infinity\<close> and \<^verbatim>\<open>NaN\<close> have no value and are kept apart where they can
  occur. A character is a UTF-16 code unit below 256 (Latin-1), so that the length of a
  string is the length of the list; strings holding other code units are outside this
  model.
\<close>

subsection \<open>Decimal digits\<close>

definition digitChar :: "int \<Rightarrow> char" where
  "digitChar d = char_of (48 + d)"

function decimal :: "int \<Rightarrow> string" where
  "decimal n = (if n < 10 then [digitChar n] else decimal (n div 10) @ [digitChar (n mod 10)])"
  by pat_completeness auto
termination
  by (relation "measure nat") auto

declare decimal.simps [simp del]

definition isDigit :: "char \<Rightarrow> bool" where
  "isDigit c = (48 \<le> (of_char c :: int) \<and> (of_char c :: int) \<le> 57)"

text \<open>The number a string of decimal digits denotes.\<close>

definition digitsValue :: "string \<Rightarrow> int" where
  "digitsValue s = foldl (\<lambda>acc c. 10 * acc + ((of_char c :: int) - 48)) 0 s"

subsection \<open>Rounding to a double\<close>

text \<open>\<open>powb b e\<close> is \<open>b\<close> to the power \<open>e\<close>, \<open>e\<close> of either sign.\<close>

definition powb :: "int \<Rightarrow> int \<Rightarrow> rat" where
  "powb b e = (if 0 \<le> e then of_int b ^ nat e else 1 / of_int b ^ nat (- e))"

text \<open>The integer logarithm: for \<open>b \<ge> 2\<close> and \<open>n \<ge> 1\<close>, the \<open>k\<close> with \<open>b^k \<le> n < b^(k+1)\<close>.\<close>

function intlog :: "int \<Rightarrow> int \<Rightarrow> int" where
  "intlog b n = (if b < 2 \<or> n < b then 0 else intlog b (n div b) + 1)"
  by pat_completeness auto
termination
proof (relation "measure (\<lambda>(b, n). nat n)")
  show "wf (measure (\<lambda>(b, n). nat n))" by simp
next
  fix b n :: int
  assume a: "\<not> (b < 2 \<or> n < b)"
  then have "n div b < n"
    by (intro int_div_less_self) auto
  with a show "((b, n div b), (b, n)) \<in> measure (\<lambda>(b, n). nat n)"
    by simp
qed

declare intlog.simps [simp del]

text \<open>The same for a positive rational \<open>a\<close>: the \<open>k\<close> with \<open>b^k \<le> a < b^(k+1)\<close>.\<close>

definition ratlog :: "int \<Rightarrow> rat \<Rightarrow> int" where
  "ratlog b a =
     (let (n, d) = quotient_of a;
          k = intlog b n - intlog b d
      in if powb b k \<le> a then k else k - 1)"

definition roundHalfEven :: "rat \<Rightarrow> int" where
  "roundHalfEven t =
     (let f = \<lfloor>t\<rfloor>; r = t - of_int f
      in if r < 1 / 2 then f else if 1 / 2 < r then f + 1 else if even f then f else f + 1)"

text \<open>
  The double nearest to a rational, ties to the even significand: 53 bits of significand,
  exponents down to \<open>-1074\<close>. Every argument this program rounds lies below the overflow
  threshold (a double plus one, and decimal numerals that read back as a given double),
  so the result \<^verbatim>\<open>Infinity\<close> is not represented.
\<close>

definition roundToDouble :: "rat \<Rightarrow> rat" where
  "roundToDouble q =
     (if q = 0 then 0
      else let a = \<bar>q\<bar>;
               e = ratlog 2 a;
               p = max (e - 52) (- 1074);
               m = roundHalfEven (a / powb 2 p)
           in sgn q * (of_int m * powb 2 p))"

text \<open>\<^verbatim>\<open>Number.isInteger\<close> on a finite number.\<close>

definition isInteger :: "rat \<Rightarrow> bool" where
  "isInteger q = (of_int \<lfloor>q\<rfloor> = q)"

subsection \<open>String(value)\<close>

text \<open>
  Number::toString of ECMAScript for a positive finite double \<open>m\<close>. First the shortest
  decimal numeral that reads back as \<open>m\<close>: integers \<open>s\<close>, \<open>n\<close> with \<open>k\<close> digits in \<open>s\<close>, such
  that \<open>s * 10^(n - k)\<close> rounds to \<open>m\<close>, \<open>k\<close> as small as possible and, among those, \<open>s\<close> as
  close to \<open>m\<close> as possible. \<open>shortest m n k\<close> tries \<open>k\<close>, \<open>k + 1\<close>, ... digits, where
  \<open>10^(n - 1) \<le> m < 10^n\<close>; 17 digits always suffice.
\<close>

function shortest :: "rat \<Rightarrow> int \<Rightarrow> int \<Rightarrow> int \<times> int" where
  "shortest m n k =
     (let unit = powb 10 (n - k);
          lo = \<lfloor>m / unit\<rfloor>;
          hi = lo + 1;
          okLo = (roundToDouble (of_int lo * unit) = m);
          okHi = (roundToDouble (of_int hi * unit) = m);
          up = (if of_int hi = powb 10 k then (hi div 10, n + 1) else (hi, n))
      in if okLo \<and> okHi then
           (if m - of_int lo * unit < of_int hi * unit - m then (lo, n)
            else if of_int hi * unit - m < m - of_int lo * unit then up
            else if even lo then (lo, n) else up)
         else if okLo then (lo, n)
         else if okHi then up
         else if 17 \<le> k then (lo, n)
         else shortest m n (k + 1))"
  by pat_completeness auto
termination
  by (relation "measure (\<lambda>(m, n, k). nat (17 - k))") auto

declare shortest.simps [simp del]

text \<open>
  Then the notation: positional for \<open>-5 \<le> n \<le> 21\<close> (digits and zeros, digits around a
  point, or \<^verbatim>\<open>0.\<close>, zeros and digits), exponent notation otherwise.
\<close>

definition formatNumber :: "int \<Rightarrow> int \<Rightarrow> string" where
  "formatNumber s n =
     (let ds = decimal s; k = int (length ds)
      in if - 5 \<le> n \<and> n \<le> 21 then
           (if k \<le> n then ds @ replicate (nat (n - k)) (CHR ''0'')
            else if 0 < n then take (nat n) ds @ ''.'' @ drop (nat n) ds
            else ''0.'' @ replicate (nat (- n)) (CHR ''0'') @ ds)
         else
           (let e = n - 1;
                ex = (if 0 \<le> e then ''+'' else ''-'') @ decimal \<bar>e\<bar>
            in if k = 1 then ds @ ''e'' @ ex
               else take 1 ds @ ''.'' @ drop 1 ds @ ''e'' @ ex))"

definition numberToString :: "rat \<Rightarrow> string" where
  "numberToString m = (let (s, n) = shortest m (ratlog 10 m + 1) 1 in formatNumber s n)"

definition String_of :: "rat \<Rightarrow> string" where
  "String_of v =
     (if v = 0 then ''0''
      else if v < 0 then CHR ''-'' # numberToString (- v)
      else numberToString v)"

text \<open>\<^verbatim>\<open>s.padStart(targetLength, '0')\<close>: nothing is added to a string already that long.\<close>

definition padStart :: "string \<Rightarrow> int \<Rightarrow> char \<Rightarrow> string" where
  "padStart s targetLength fill = replicate (nat (targetLength - int (length s))) fill @ s"


section \<open>The counter store of \<^verbatim>\<open>server.js\<close>\<close>

text \<open>
  The store is one JSON document, meant to hold an object from counter names to numbers.
  It lives either in a file (\<^verbatim>\<open>counters.json\<close>) or under the key \<^verbatim>\<open>counters\<close> of a remote
  Redis service. \<^verbatim>\<open>readStore\<close> materialises the whole document, \<^verbatim>\<open>writeStore\<close>
  serialises the whole object.

  A value inside the document is a finite number, a number literal too large for a double
  (\<^verbatim>\<open>1e999\<close>, which parses to \<^verbatim>\<open>Infinity\<close>: \<open>JNonFinite\<close>), or anything else (string,
  boolean, null, array, nested object: \<open>JOther\<close>, carrying its JSON text).
\<close>

datatype jsval = JNumber rat | JNonFinite | JOther string

type_synonym props = "string \<rightharpoonup> jsval"

text \<open>
  A parsed document is an object, an array, or neither (null, a number, a string, a
  boolean: what fails \<^verbatim>\<open>data && typeof data === 'object'\<close>). The text of a document
  either parses or makes JSON.parse throw.
\<close>

datatype json = JObject props | JArray "jsval list" | JNotObject

datatype rawtext = Malformed | Wellformed json

text \<open>
  The object in memory: a plain object with its own properties, or an array with its
  elements (\<open>None\<close> is a hole) and the own properties it has besides.
\<close>

datatype jsobject = Plain props | Array "jsval option list" props

datatype error = ENOENT | EACCES | SyntaxError | RedisError

text \<open>
  What \<^verbatim>\<open>redisClient.get('counters')\<close> resolves to: a falsy value (null when the key
  is absent), a string still to be parsed, or a value the client has already
  deserialised.
\<close>

datatype rdata = RFalsy | RString rawtext | RValue json

text \<open>
  \<open>fileAccepts\<close> and \<open>redisAccepts\<close> say which texts the environment lets the program
  serialise and write (permissions, space, the length a string can have).
\<close>

record backend =
  useRedis :: bool
  redisReachable :: bool
  redisCounters :: rdata
  redisAccepts :: "rawtext \<Rightarrow> bool"
  jsonFile :: "rawtext option"
  fileAccepts :: "rawtext \<Rightarrow> bool"

subsection \<open>try/catch and sequencing over results\<close>

definition andThen :: "error + 'a \<Rightarrow> ('a \<Rightarrow> error + 'b) \<Rightarrow> error + 'b" where
  "andThen m f = (case m of Inl e \<Rightarrow> Inl e | Inr v \<Rightarrow> f v)"

definition tryCatch :: "error + 'a \<Rightarrow> (error \<Rightarrow> error + 'a) \<Rightarrow> error + 'a" where
  "tryCatch body handler = (case body of Inl e \<Rightarrow> handler e | Inr v \<Rightarrow> Inr v)"

subsection \<open>The calls into the platform\<close>

definition JSON_parse :: "rawtext \<Rightarrow> error + json" where
  "JSON_parse t = (case t of Malformed \<Rightarrow> Inl SyntaxError | Wellformed j \<Rightarrow> Inr j)"

text \<open>
  JSON.stringify writes a non-finite number and a hole as \<^verbatim>\<open>null\<close>, and of an array
  only the elements.
\<close>

fun toJSON :: "jsval \<Rightarrow> jsval" where
  "toJSON JNonFinite = JOther ''null''"
| "toJSON v = v"

fun elementToJSON :: "jsval option \<Rightarrow> jsval" where
  "elementToJSON None = JOther ''null''"
| "elementToJSON (Some v) = toJSON v"

fun JSON_stringify :: "jsobject \<Rightarrow> rawtext" where
  "JSON_stringify (Plain s) = Wellformed (JObject (\<lambda>k. map_option toJSON (s k)))"
| "JSON_stringify (Array xs extra) = Wellformed (JArray (map elementToJSON xs))"

definition fs_readFileSync :: "backend \<Rightarrow> error + rawtext" where
  "fs_readFileSync b = (case jsonFile b of None \<Rightarrow> Inl ENOENT | Some t \<Rightarrow> Inr t)"

definition fs_writeFileSync :: "backend \<Rightarrow> rawtext \<Rightarrow> error + backend" where
  "fs_writeFileSync b t = (if fileAccepts b t then Inr (b\<lparr>jsonFile := Some t\<rparr>) else Inl EACCES)"

definition redis_get :: "backend \<Rightarrow> error + rdata" where
  "redis_get b = (if redisReachable b then Inr (redisCounters b) else Inl RedisError)"

definition redis_set :: "backend \<Rightarrow> rawtext \<Rightarrow> error + backend" where
  "redis_set b t =
     (if redisReachable b \<and> redisAccepts b t then Inr (b\<lparr>redisCounters := RString t\<rparr>)
      else Inl RedisError)"

subsection \<open>readStore and writeStore\<close>

text \<open>
  \<^verbatim>\<open>if (data && typeof data === 'object') return data; return {};\<close> An array passes
  the test (\<^verbatim>\<open>typeof []\<close> is \<^verbatim>\<open>'object'\<close>) and is returned as the store.
\<close>

fun objectOrEmpty :: "json \<Rightarrow> jsobject" where
  "objectOrEmpty (JObject s) = Plain s"
| "objectOrEmpty (JArray xs) = Array (map Some xs) Map.empty"
| "objectOrEmpty JNotObject = Plain Map.empty"

definition readStore :: "backend \<Rightarrow> error + jsobject" where
  "readStore b =
     (if useRedis b then
        tryCatch
          (andThen (redis_get b) (\<lambda>data.
             case data of
               RFalsy \<Rightarrow> Inr (Plain Map.empty)
             | RString t \<Rightarrow> andThen (JSON_parse t) (\<lambda>parsed. Inr (objectOrEmpty parsed))
             | RValue parsed \<Rightarrow> Inr (objectOrEmpty parsed)))
          (\<lambda>err. Inr (Plain Map.empty))
      else
        tryCatch
          (andThen (fs_readFileSync b) (\<lambda>raw.
             andThen (JSON_parse raw) (\<lambda>data. Inr (objectOrEmpty data))))
          (\<lambda>err. Inr (Plain Map.empty)))"

definition writeStore :: "backend \<Rightarrow> jsobject \<Rightarrow> error + backend" where
  "writeStore b store =
     (if useRedis b then
        tryCatch (redis_set b (JSON_stringify store)) (\<lambda>err. Inr b)
      else
        tryCatch (fs_writeFileSync b (JSON_stringify store)) (\<lambda>err. Inr b))"

subsection \<open>Property access on the store object\<close>

text \<open>
  A property name is an array index when it is the canonical decimal numeral of a number
  below \<open>2^32 - 1\<close>.
\<close>

definition arrayIndex :: "string \<Rightarrow> nat option" where
  "arrayIndex name =
     (if name \<noteq> [] \<and> list_all isDigit name \<and> decimal (digitsValue name) = name
         \<and> digitsValue name < 2 ^ 32 - 1
      then Some (nat (digitsValue name)) else None)"

text \<open>
  The own property \<^verbatim>\<open>store[name]\<close> reads, if there is one. An array has its elements
  under their indices and its length under \<^verbatim>\<open>length\<close>.
\<close>

fun ownProperty :: "jsobject \<Rightarrow> string \<Rightarrow> jsval option" where
  "ownProperty (Plain s) name = s name"
| "ownProperty (Array xs extra) name =
     (if name = ''length'' then Some (JNumber (of_nat (length xs)))
      else case arrayIndex name of
             Some i \<Rightarrow> if i < length xs then xs ! i else None
           | None \<Rightarrow> extra name)"

text \<open>
  \<^verbatim>\<open>typeof store[name] === 'number' && Number.isFinite(store[name]) ? store[name] : 0\<close>.
  A name that is not an own property is looked up in the prototypes, whose members are
  functions and objects, never numbers: it reads as 0 like a missing one.
\<close>

definition finiteOrZero :: "jsobject \<Rightarrow> string \<Rightarrow> rat" where
  "finiteOrZero store name = (case ownProperty store name of Some (JNumber n) \<Rightarrow> n | _ \<Rightarrow> 0)"

text \<open>
  \<^verbatim>\<open>store[name] = nextValue\<close> creates or overwrites the own property \<open>name\<close>, with these
  exceptions of the language. On an object without an own property \<^verbatim>\<open>__proto__\<close> the
  assignment runs the setter inherited from \<^verbatim>\<open>Object.prototype\<close>, which ignores a
  number and leaves the object as it was. On an array, an index at or beyond the length
  extends the array, with holes in between, and \<^verbatim>\<open>length\<close> cuts or extends it. A
  value that is no array length (not an integer from 0 to \<open>2^32 - 1\<close>) would make the
  assignment throw; the value assigned here is the length plus one, so this needs an
  array of \<open>2^32 - 1\<close> elements, more than the text of a document can hold (a string has
  fewer than \<open>2^30\<close> characters), and the case is left out: the array stays as it is.
\<close>

fun assign :: "jsobject \<Rightarrow> string \<Rightarrow> rat \<Rightarrow> jsobject" where
  "assign (Plain s) name v =
     (if name = ''__proto__'' \<and> s name = None then Plain s
      else Plain (s(name \<mapsto> JNumber v)))"
| "assign (Array xs extra) name v =
     (if name = ''length'' then
        (if isInteger v \<and> 0 \<le> v \<and> v < 2 ^ 32
         then Array (take (nat \<lfloor>v\<rfloor>) xs @ replicate (nat \<lfloor>v\<rfloor> - length xs) None) extra
         else Array xs extra)
      else case arrayIndex name of
             Some i \<Rightarrow>
               if i < length xs then Array (xs[i := Some (JNumber v)]) extra
               else Array (xs @ replicate (i - length xs) None @ [Some (JNumber v)]) extra
           | None \<Rightarrow>
               if name = ''__proto__'' \<and> extra name = None then Array xs extra
               else Array xs (extra(name \<mapsto> JNumber v)))"

subsection \<open>getAndIncrementCounter and peekCounter\<close>

text \<open>\<^verbatim>\<open>current + 1\<close> is the double nearest to the sum.\<close>

definition getAndIncrementCounter :: "backend \<Rightarrow> string \<Rightarrow> error + (rat \<times> backend)" where
  "getAndIncrementCounter b name =
     andThen (readStore b) (\<lambda>store.
       let current = finiteOrZero store name;
           nextValue = roundToDouble (current + 1);
           store' = assign store name nextValue
       in andThen (writeStore b store') (\<lambda>b'. Inr (nextValue, b')))"

definition peekCounter :: "backend \<Rightarrow> string \<Rightarrow> error + rat" where
  "peekCounter b name =
     andThen (readStore b) (\<lambda>store.
       let current = finiteOrZero store name in Inr current)"

text \<open>Calling \<^verbatim>\<open>getAndIncrementCounter\<close> n times in a row, collecting the returned values.\<close>

fun incrementTimes :: "nat \<Rightarrow> backend \<Rightarrow> string \<Rightarrow> error + (rat list \<times> backend)" where
  "incrementTimes 0 b name = Inr ([], b)"
| "incrementTimes (Suc n) b name =
     andThen (getAndIncrementCounter b name) (\<lambda>(v, b').
       andThen (incrementTimes n b' name) (\<lambda>(vs, b''). Inr (v # vs, b'')))"

text \<open>The store before anything was written: no file, no key, every write accepted.\<close>

definition emptyBackend :: "bool \<Rightarrow> backend" where
  "emptyBackend redis =
     \<lparr>useRedis = redis, redisReachable = True, redisCounters = RFalsy,
      redisAccepts = (\<lambda>t. True), jsonFile = None, fileAccepts = (\<lambda>t. True)\<rparr>"

section \<open>The renderer\<close>

text \<open>
  \<^verbatim>\<open>renderSouthParkCounter\<close> builds the display string, lays one glyph out per character
  and prints the result as SVG markup. The model keeps every number and string the markup
  is printed from, and leaves the printing out. Lengths are the doubles of the source taken
  as exact rationals (\<open>140 * 0.6\<close> is \<open>84\<close>). A string is the list of its characters, which
  is what \<^verbatim>\<open>Array.from(displayStr)\<close> iterates over, and \<^verbatim>\<open>displayStr.length\<close> is the
  length of that list.
\<close>


subsection \<open>The display string\<close>

text \<open>\<^verbatim>\<open>strValue\<close> and \<^verbatim>\<open>displayStr\<close>, where \<^verbatim>\<open>prefix || ''\<close> is the prefix itself.\<close>

definition displayStrOf :: "string \<Rightarrow> rat \<Rightarrow> int \<Rightarrow> string" where
  "displayStrOf prefix value padding =
     (let strValue = padStart (String_of value) padding (CHR ''0'')
      in prefix @ strValue)"

subsection \<open>Palettes\<close>

record palette =
  bg :: string
  frame :: string
  digitBg :: string
  digitBorder :: string
  textColor :: string

definition lightPalette :: palette where
  "lightPalette = \<lparr>bg = ''#f4efe0'', frame = ''#222222'', digitBg = ''#ffe6b3'',
     digitBorder = ''#111111'', textColor = ''#222222''\<rparr>"

definition darkPalette :: palette where
  "darkPalette = \<lparr>bg = ''#1f242b'', frame = ''#f8f8f8'', digitBg = ''#384453'',
     digitBorder = ''#f8f8f8'', textColor = ''#fdfdfd''\<rparr>"

datatype darkmode = Dark0 | Dark1 | DarkAuto

definition pickPalette :: "darkmode \<Rightarrow> bool \<Rightarrow> palette" where
  "pickPalette dm prefersDark =
     (if dm = Dark1 then darkPalette
      else if dm = Dark0 then lightPalette
      else if prefersDark then darkPalette else lightPalette)"

subsection \<open>Glyph tables\<close>

definition digitWidth :: rat where "digitWidth = 140"
definition digitHeight :: rat where "digitHeight = 112"
definition digitGap :: rat where "digitGap = 0"
definition paddingX :: rat where "paddingX = 0"
definition paddingY :: rat where "paddingY = 0"

definition defaultCharacterImages :: "string list" where
  "defaultCharacterImages =
     [''/assets/stan.png'', ''/assets/kyle.png'', ''/assets/mr mackey.png'',
      ''/assets/kenny.png'', ''/assets/cartman.png'', ''/assets/timmy.png'',
      ''/assets/wendy.png'']"

definition characterScales :: "string \<rightharpoonup> rat" where
  "characterScales =
     [''/assets/cartman.png'' \<mapsto> 6 / 10,
      ''/assets/mr mackey.png'' \<mapsto> 7 / 10,
      ''/assets/stan.png'' \<mapsto> 6 / 10,
      ''/assets/kenny.png'' \<mapsto> 6 / 10,
      ''/assets/timmy.png'' \<mapsto> 8 / 10,
      ''/assets/wendy.png'' \<mapsto> 6 / 10,
      ''/assets/kyle.png'' \<mapsto> 7 / 10]"

definition characterPositions :: "string \<rightharpoonup> rat \<times> rat" where
  "characterPositions =
     [''/assets/cartman.png'' \<mapsto> (68 / 100, 7 / 10),
      ''/assets/mr mackey.png'' \<mapsto> (67 / 100, 57 / 100),
      ''/assets/stan.png'' \<mapsto> (7 / 10, 7 / 10),
      ''/assets/kenny.png'' \<mapsto> (7 / 10, 7 / 10),
      ''/assets/timmy.png'' \<mapsto> (75 / 100, 49 / 100),
      ''/assets/wendy.png'' \<mapsto> (69 / 100, 7 / 10),
      ''/assets/kyle.png'' \<mapsto> (75 / 100, 56 / 100)]"

definition characterRotations :: "string \<rightharpoonup> rat" where
  "characterRotations =
     [''/assets/cartman.png'' \<mapsto> 0,
      ''/assets/mr mackey.png'' \<mapsto> 0,
      ''/assets/stan.png'' \<mapsto> 0,
      ''/assets/kenny.png'' \<mapsto> 0,
      ''/assets/timmy.png'' \<mapsto> 0,
      ''/assets/wendy.png'' \<mapsto> 0,
      ''/assets/kyle.png'' \<mapsto> 5]"

text \<open>
  \<^verbatim>\<open>characterImages[idx % characterImages.length]\<close>. On an empty array the remainder is
  NaN and the element \<^verbatim>\<open>undefined\<close>: \<open>None\<close>.
\<close>

definition selectGlyph :: "string list \<Rightarrow> nat \<Rightarrow> string option" where
  "selectGlyph images idx = (if images = [] then None else Some (images ! (idx mod length images)))"

text \<open>
  \<^verbatim>\<open>characterScales[imgHref] || 1.0\<close>, and the same for positions and rotations: an
  entry that is missing or falsy gives the default. \<^verbatim>\<open>undefined\<close> is no key of a table.
  The renderer is called by the route only, with asset paths (or the printed form of an
  inherited member, see \<open>lookupKey\<close> below); none of these names a member the tables
  inherit from \<^verbatim>\<open>Object.prototype\<close>.
\<close>

definition scaleOf :: "string option \<Rightarrow> rat" where
  "scaleOf imgHref =
     (case Option.bind imgHref characterScales of
        Some s \<Rightarrow> if s = 0 then 1 else s
      | None \<Rightarrow> 1)"

definition positionOf :: "string option \<Rightarrow> rat \<times> rat" where
  "positionOf imgPath =
     (case Option.bind imgPath characterPositions of Some p \<Rightarrow> p | None \<Rightarrow> (1 / 2, 3 / 4))"

definition rotationOf :: "string option \<Rightarrow> rat" where
  "rotationOf imgPath =
     (case Option.bind imgPath characterRotations of Some r \<Rightarrow> r | None \<Rightarrow> 0)"

subsection \<open>The loops over the display string\<close>

text \<open>\<^verbatim>\<open>Array.from(displayStr).forEach((char, idx) => ...)\<close> with the variables it updates.\<close>

fun forEach :: "(char \<Rightarrow> nat \<Rightarrow> 's \<Rightarrow> 's) \<Rightarrow> nat \<Rightarrow> string \<Rightarrow> 's \<Rightarrow> 's" where
  "forEach f idx [] s = s"
| "forEach f idx (c # cs) s = forEach f (Suc idx) cs (f c idx s)"

definition characterImagesOf :: "string list \<Rightarrow> string list" where
  "characterImagesOf characterOrder =
     (if characterOrder \<noteq> [] then characterOrder else defaultCharacterImages)"

definition totalWidth :: "string \<Rightarrow> string list \<Rightarrow> rat" where
  "totalWidth displayStr characterOrder =
     forEach (\<lambda>char idx totalWidth.
        let imgHref = selectGlyph (characterImagesOf characterOrder) idx;
            charScale = scaleOf imgHref;
            totalWidth = totalWidth + digitWidth * charScale
        in if int idx < int (length displayStr) - 1 then totalWidth + digitGap else totalWidth)
       0 displayStr (paddingX * 2)"

definition totalHeight :: "string \<Rightarrow> string list \<Rightarrow> rat" where
  "totalHeight displayStr characterOrder =
     forEach (\<lambda>char idx maxHeight.
        let imgHref = selectGlyph (characterImagesOf characterOrder) idx;
            charScale = scaleOf imgHref
        in max maxHeight (digitHeight * charScale))
       0 displayStr digitHeight"

text \<open>One \<^verbatim>\<open><g>\<close> element of the markup: a glyph image with the character drawn on it.\<close>

record digit =
  char :: char
  imgPath :: "string option"
  imgHref :: string
  translateX :: rat
  translateY :: rat
  charWidth :: rat
  charHeight :: rat
  textX :: rat
  textY :: rat
  rotation :: rat
  fontSize :: rat

text \<open>\<^verbatim>\<open>getImageHref\<close>: the cached data URI of a path, or the path itself.\<close>

definition getImageHref :: "(string \<rightharpoonup> string) \<Rightarrow> string option \<Rightarrow> string" where
  "getImageHref cache relativePath =
     (case Option.bind relativePath cache of
        Some uri \<Rightarrow> uri
      | None \<Rightarrow> (case relativePath of Some p \<Rightarrow> p | None \<Rightarrow> ''undefined''))"

definition digits :: "(string \<rightharpoonup> string) \<Rightarrow> string \<Rightarrow> string list \<Rightarrow> int \<Rightarrow> digit list" where
  "digits cache displayStr characterOrder offset =
     fst (forEach (\<lambda>char idx (digitsSvg, currentX).
        let imgPath = selectGlyph (characterImagesOf characterOrder) idx;
            imgHref = getImageHref cache imgPath;
            pos = positionOf imgPath;
            rotation = rotationOf imgPath;
            charScale = scaleOf imgPath;
            charWidth = digitWidth * charScale;
            charHeight = digitHeight * charScale;
            charBaseY = totalHeight displayStr characterOrder - charHeight;
            textX = charWidth * fst pos;
            textY = charHeight * snd pos
        in (digitsSvg @
             [\<lparr>char = char, imgPath = imgPath, imgHref = imgHref, translateX = currentX,
               translateY = charBaseY, charWidth = charWidth, charHeight = charHeight,
               textX = textX, textY = textY, rotation = rotation,
               fontSize = charHeight * (28 / 100)\<rparr>],
            currentX + (charWidth + digitGap)))
       0 displayStr ([], paddingX + of_int offset))"

subsection \<open>renderSouthParkCounter\<close>

datatype align = Top | Center | Bottom

text \<open>
  The display parameters travel unchanged from the parsed query to the renderer's argument;
  the renderer's argument adds \<^verbatim>\<open>value\<close> and \<^verbatim>\<open>characterOrder\<close>. A missing
  \<^verbatim>\<open>characterOrder\<close> behaves as the empty array.
\<close>

record displayParams =
  padding :: int
  offset :: int
  scale :: rat
  align :: align
  darkmode :: darkmode
  pixelated :: int
  prefix :: string

record renderConfig = displayParams +
  "value" :: rat
  characterOrder :: "string list"

record svg =
  displayStr :: string
  width :: rat
  height :: rat
  viewBoxWidth :: rat
  viewBoxHeight :: rat
  shapeRendering :: string
  fill :: string
  baselineOffset :: rat
  scaleFactor :: rat
  glyphs :: "digit list"

definition renderSouthParkCounter :: "(string \<rightharpoonup> string) \<Rightarrow> renderConfig \<Rightarrow> svg" where
  "renderSouthParkCounter cache cfg =
     (let prefersDark = False;
          palette = pickPalette (darkmode cfg) prefersDark;
          displayStr = displayStrOf (prefix cfg) (value cfg) (padding cfg);
          totalWidth = totalWidth displayStr (characterOrder cfg);
          totalHeight = totalHeight displayStr (characterOrder cfg);
          scaledWidth = totalWidth * scale cfg;
          scaledHeight = totalHeight * scale cfg;
          baselineOffset =
            (if align cfg = Top then 0
             else if align cfg = Center then (totalHeight * (1 - scale cfg)) / 2
             else totalHeight * (1 - scale cfg));
          shapeRendering = (if pixelated cfg = 1 then ''crispEdges'' else ''auto'')
      in \<lparr>displayStr = displayStr, width = scaledWidth, height = scaledHeight,
          viewBoxWidth = totalWidth, viewBoxHeight = totalHeight,
          shapeRendering = shapeRendering, fill = textColor palette,
          baselineOffset = baselineOffset, scaleFactor = scale cfg,
          glyphs = digits cache displayStr (characterOrder cfg) (offset cfg)\<rparr>)"


section \<open>The glyph order of a request\<close>

definition characterKeyToPath :: "string \<rightharpoonup> string" where
  "characterKeyToPath =
     [''stan'' \<mapsto> ''/assets/stan.png'',
      ''kyle'' \<mapsto> ''/assets/kyle.png'',
      ''mr-mackey'' \<mapsto> ''/assets/mr mackey.png'',
      ''kenny'' \<mapsto> ''/assets/kenny.png'',
      ''cartman'' \<mapsto> ''/assets/cartman.png'',
      ''timmy'' \<mapsto> ''/assets/timmy.png'',
      ''wendy'' \<mapsto> ''/assets/wendy.png'']"

text \<open>
  \<^verbatim>\<open>characterKeyToPath[key]\<close> on the object literal. Besides its own seven keys the
  lookup finds the members the literal inherits from \<^verbatim>\<open>Object.prototype\<close>; after
  \<^verbatim>\<open>toLowerCase\<close> only two of their names can occur, \<^verbatim>\<open>constructor\<close> (a function) and
  \<^verbatim>\<open>__proto__\<close> (an object). Both are truthy; they are represented by the strings they
  print as, which is how the renderer uses them (as a table key and in the markup). As an
  image they never load. \<open>None\<close> is \<^verbatim>\<open>undefined\<close>.
\<close>

definition lookupKey :: "string \<Rightarrow> string option" where
  "lookupKey key =
     (case characterKeyToPath key of
        Some path \<Rightarrow> Some path
      | None \<Rightarrow>
          if key = ''constructor'' then Some ''function Object() { [native code] }''
          else if key = ''__proto__'' then Some ''[object Object]''
          else None)"


text \<open>
  White space is what \<^verbatim>\<open>trim\<close> and \<^verbatim>\<open>\s\<close> match among the code units below 256:
  tab, line feed, vertical tab, form feed, carriage return, space and the no-break space.
  \<^verbatim>\<open>toLowerCase\<close> maps A-Z and the capital letters of Latin-1 to their small letters.
\<close>

definition isSpace :: "char \<Rightarrow> bool" where
  "isSpace c = (c = CHR '' '' \<or> c = CHR 0x09 \<or> c = CHR 0x0A \<or> c = CHR 0x0B
                \<or> c = CHR 0x0C \<or> c = CHR 0x0D \<or> c = CHR 0xA0)"

definition trim :: "string \<Rightarrow> string" where
  "trim s = rev (dropWhile isSpace (rev (dropWhile isSpace s)))"

definition toLowerCase :: "string \<Rightarrow> string" where
  "toLowerCase s =
     map (\<lambda>c. let n = (of_char c :: nat)
              in if (65 \<le> n \<and> n \<le> 90) \<or> (192 \<le> n \<and> n \<le> 222 \<and> n \<noteq> 215)
                 then char_of (n + 32) else c) s"

text \<open>\<^verbatim>\<open>orderStr.split(',')\<close>\<close>

fun split_comma :: "string \<Rightarrow> string list" where
  "split_comma [] = [[]]"
| "split_comma (c # cs) =
     (if c = CHR '','' then [] # split_comma cs
      else (case split_comma cs of [] \<Rightarrow> [[c]] | w # ws \<Rightarrow> (c # w) # ws))"

text \<open>\<^verbatim>\<open>rawKey.replace(/\s+/g, '-')\<close>: every run of white space becomes one dash.\<close>

function replaceSpaces :: "string \<Rightarrow> string" where
  "replaceSpaces [] = []"
| "replaceSpaces (c # cs) =
     (if isSpace c then CHR ''-'' # replaceSpaces (dropWhile isSpace cs)
      else c # replaceSpaces cs)"
  by pat_completeness auto
termination
  by (relation "measure length") (auto simp: less_Suc_eq_le length_dropWhile_le)

text \<open>The \<^verbatim>\<open>for (const rawKey of keys)\<close> loop with its \<^verbatim>\<open>seen\<close> set and \<^verbatim>\<open>resolved\<close> array.\<close>

fun resolveKeys :: "string list \<Rightarrow> string set \<Rightarrow> string list \<Rightarrow> string list" where
  "resolveKeys [] seen resolved = resolved"
| "resolveKeys (rawKey # keys) seen resolved =
     (let key = replaceSpaces rawKey in
      case lookupKey key of
        Some path \<Rightarrow>
          if path \<notin> seen then resolveKeys keys (insert path seen) (resolved @ [path])
          else resolveKeys keys seen resolved
      | None \<Rightarrow> resolveKeys keys seen resolved)"

definition orderKeys :: "string \<Rightarrow> string list" where
  "orderKeys orderStr =
     filter (\<lambda>k. k \<noteq> []) (map (\<lambda>k. toLowerCase (trim k)) (split_comma orderStr))"

definition parseOrder :: "string \<Rightarrow> string list option" where
  "parseOrder orderStr =
     (if orderStr = [] then None
      else let keys = orderKeys orderStr;
               resolved = resolveKeys keys {} []
           in if resolved \<noteq> [] then Some resolved else None)"

text \<open>\<^verbatim>\<open>customOrder && customOrder.length ? customOrder : [...]\<close> in the route.\<close>

definition imagesToLoad :: "string list option \<Rightarrow> string list" where
  "imagesToLoad customOrder =
     (case customOrder of
        Some order \<Rightarrow> if order \<noteq> [] then order else defaultCharacterImages
      | None \<Rightarrow> defaultCharacterImages)"

section \<open>The asset cache\<close>

text \<open>
  \<^verbatim>\<open>imageToDataUri\<close> turns an asset into a data URI and remembers it in
  \<^verbatim>\<open>imageDataUriCache\<close>. The asset directory and the optional \<^verbatim>\<open>sharp\<close> module are
  the environment: \<open>files\<close> is what \<^verbatim>\<open>fs.readFileSync\<close> finds, \<open>sharpOutput\<close> what the
  resize-and-compress pipeline produces for a file (\<open>None\<close>: it throws). \<open>calls\<close> records
  each call of the pipeline and of \<^verbatim>\<open>readFileSync\<close>, in order.
\<close>

type_synonym bytes = "nat list"

datatype call = Sharp string | ReadFile string

record assets =
  files :: "string \<rightharpoonup> bytes"
  sharpLoaded :: bool
  sharpOutput :: "string \<rightharpoonup> bytes"
  imageDataUriCache :: "string \<rightharpoonup> string"
  calls :: "call list"

definition assetsPath :: string where
  "assetsPath = ''assets''"

text \<open>\<^verbatim>\<open>path.basename\<close>: the part after the last slash, trailing slashes dropped.\<close>

definition basename :: "string \<Rightarrow> string" where
  "basename p =
     (let t = dropWhile (\<lambda>c. c = CHR ''/'') (rev p)
      in rev (takeWhile (\<lambda>c. c \<noteq> CHR ''/'') t))"

text \<open>\<^verbatim>\<open>path.join\<close> of a directory and a name that holds no slash.\<close>

definition path_join :: "string \<Rightarrow> string \<Rightarrow> string" where
  "path_join dir name =
     (if name = [] \<or> name = ''.'' then dir
      else if name = ''..'' then ''.''
      else dir @ ''/'' @ name)"

definition endsWith :: "string \<Rightarrow> string \<Rightarrow> bool" where
  "endsWith s suffix =
     (length suffix \<le> length s \<and> drop (length s - length suffix) s = suffix)"

text \<open>\<^verbatim>\<open>imageBuffer.toString('base64')\<close>\<close>

definition base64Alphabet :: string where
  "base64Alphabet = ''ABCDEFGHIJKLMNOPQRSTUVWXYZabcdefghijklmnopqrstuvwxyz0123456789+/''"

definition b64 :: "nat \<Rightarrow> char" where
  "b64 i = base64Alphabet ! (i mod 64)"

fun base64 :: "bytes \<Rightarrow> string" where
  "base64 (a # b # c # rest) =
     (let n = (a mod 256) * 65536 + (b mod 256) * 256 + c mod 256
      in [b64 (n div 262144), b64 (n div 4096), b64 (n div 64), b64 n]) @ base64 rest"
| "base64 [a, b] =
     (let n = (a mod 256) * 65536 + (b mod 256) * 256
      in [b64 (n div 262144), b64 (n div 4096), b64 (n div 64), CHR ''=''])"
| "base64 [a] =
     (let n = (a mod 256) * 65536
      in [b64 (n div 262144), b64 (n div 4096), CHR ''='', CHR ''=''])"
| "base64 [] = []"

definition readFileSync :: "assets \<Rightarrow> string \<Rightarrow> error + bytes" where
  "readFileSync a fullPath = (case files a fullPath of None \<Rightarrow> Inl ENOENT | Some buf \<Rightarrow> Inr buf)"

text \<open>
  The inner part of the \<^verbatim>\<open>try\<close> block: the buffer comes from \<^verbatim>\<open>sharp\<close> when the module
  is loaded and its pipeline succeeds, from \<^verbatim>\<open>readFileSync\<close> otherwise.
\<close>

definition loadImageBuffer :: "assets \<Rightarrow> string \<Rightarrow> (error + bytes) \<times> assets" where
  "loadImageBuffer a fullPath =
     (if sharpLoaded a then
        (case sharpOutput a fullPath of
           Some buf \<Rightarrow> (Inr buf, a\<lparr>calls := calls a @ [Sharp fullPath]\<rparr>)
         | None \<Rightarrow>
             (readFileSync a fullPath,
              a\<lparr>calls := calls a @ [Sharp fullPath, ReadFile fullPath]\<rparr>))
      else (readFileSync a fullPath, a\<lparr>calls := calls a @ [ReadFile fullPath]\<rparr>))"

definition imageToDataUri :: "assets \<Rightarrow> string \<Rightarrow> string \<times> assets" where
  "imageToDataUri a imagePath =
     (case imageDataUriCache a imagePath of
        Some dataUri \<Rightarrow> (dataUri, a)
      | None \<Rightarrow>
          (let fullPath = path_join assetsPath (basename imagePath);
               (imageBuffer, a') = loadImageBuffer a fullPath
           in (case imageBuffer of
                 Inr buf \<Rightarrow>
                   (let mimeType = (if endsWith imagePath ''.png'' then ''image/png''
                                    else ''image/jpeg'');
                        dataUri = ''data:'' @ mimeType @ '';base64,'' @ base64 buf;
                        cache = (imageDataUriCache a')(imagePath := Some dataUri)
                    in (dataUri, a'\<lparr>imageDataUriCache := cache\<rparr>))
               | Inl err \<Rightarrow> (imagePath, a'))))"

text \<open>The route's loop over \<^verbatim>\<open>imagesToLoad\<close>.\<close>

fun loadImages :: "assets \<Rightarrow> string list \<Rightarrow> assets" where
  "loadImages a [] = a"
| "loadImages a (path # rest) =
     (if imageDataUriCache a path = None then loadImages (snd (imageToDataUri a path)) rest
      else loadImages a rest)"

section \<open>The route \<^verbatim>\<open>/@:name\<close>\<close>

text \<open>
  The parsed query: \<^verbatim>\<open>num\<close> is a number the schema has checked to be an integer and
  not negative, \<^verbatim>\<open>inc\<close> is 0 or 1.
\<close>

record query = displayParams +
  num :: rat
  inc :: int
  order :: string

record server =
  counters :: backend
  assetCache :: assets

datatype response = BadRequest string | Svg svg

definition counterRoute :: "server \<Rightarrow> string \<Rightarrow> query \<Rightarrow> error + (response \<times> server)" where
  "counterRoute srv name q =
     (if name = [] \<or> length name > 128 then Inr (BadRequest ''Invalid name'', srv)
      else
        andThen
          (if num q \<noteq> 0 \<and> num q > 0 then Inr (num q, counters srv)
           else if inc q = 1 then getAndIncrementCounter (counters srv) name
           else andThen (peekCounter (counters srv) name) (\<lambda>v. Inr (v, counters srv)))
          (\<lambda>(v, b').
             let customOrder = parseOrder (order q);
                 images = imagesToLoad customOrder;
                 a' = loadImages (assetCache srv) images;
                 svg = renderSouthParkCounter (imageDataUriCache a')
                         \<lparr>padding = padding q, offset = offset q, scale = scale q,
                          align = align q, darkmode = darkmode q, pixelated = pixelated q,
                          prefix = prefix q, value = v, characterOrder = images\<rparr>
             in Inr (Svg svg, \<lparr>counters = b', assetCache = a'\<rparr>)))"


section \<open>Notions used in the statements\<close>

subsection \<open>States of the backing store\<close>


text \<open>
  Whether the environment lets the text \<open>t\<close> be written to the store in use, and the
  backend that holds \<open>t\<close> in that store.
\<close>

definition accepts :: "backend \<Rightarrow> rawtext \<Rightarrow> bool" where
  "accepts b t = (if useRedis b then redisReachable b \<and> redisAccepts b t else fileAccepts b t)"

definition holding :: "backend \<Rightarrow> rawtext \<Rightarrow> backend" where
  "holding b t = (if useRedis b then b\<lparr>redisCounters := RString t\<rparr> else b\<lparr>jsonFile := Some t\<rparr>)"

definition writesSucceed :: "backend \<Rightarrow> bool" where
  "writesSucceed b = (\<forall>t. accepts b t)"


text \<open>A counter file with the given document, every write accepted.\<close>

definition fileBackend :: "json \<Rightarrow> backend" where
  "fileBackend j = (emptyBackend False)\<lparr>jsonFile := Some (Wellformed j)\<rparr>"


subsection \<open>Glyph boxes\<close>

text \<open>
  The box of a glyph is \<^verbatim>\<open>charWidth\<close> by \<^verbatim>\<open>charHeight\<close>, the intrinsic size times the
  glyph's render scale. The tallest box of a rendering with at least one glyph:
\<close>

definition tallestBox :: "string \<Rightarrow> string list \<Rightarrow> rat" where
  "tallestBox str images =
     Max (set (map charHeight (digits Map.empty str images 0)))"

subsection \<open>Orders without a valid key\<close>

text \<open>
  The known glyph identifiers are the seven keys of \<^verbatim>\<open>characterKeyToPath\<close>. An order
  string has no valid key when none of its keys, normalised as \<^verbatim>\<open>parseOrder\<close> does, is
  one of them.
\<close>

definition noValidKeys :: "string \<Rightarrow> bool" where
  "noValidKeys orderStr =
     list_all (\<lambda>rawKey. characterKeyToPath (replaceSpaces rawKey) = None) (orderKeys orderStr)"

subsection \<open>What the encoder is given\<close>

text \<open>
  The bytes of an asset as the environment hands them over: the output of the \<^verbatim>\<open>sharp\<close>
  pipeline when the module is loaded and the pipeline succeeds, the file as it is
  otherwise; \<open>None\<close> when there is no such file. And the calls this takes.
\<close>

definition assetFile :: "string \<Rightarrow> string" where
  "assetFile imagePath = path_join assetsPath (basename imagePath)"

definition assetBytes :: "assets \<Rightarrow> string \<Rightarrow> bytes option" where
  "assetBytes a imagePath =
     (case (if sharpLoaded a then sharpOutput a (assetFile imagePath) else None) of
        Some buf \<Rightarrow> Some buf
      | None \<Rightarrow> files a (assetFile imagePath))"

definition assetCalls :: "assets \<Rightarrow> string \<Rightarrow> call list" where
  "assetCalls a imagePath =
     (if sharpLoaded a then
        (if sharpOutput a (assetFile imagePath) = None
         then [Sharp (assetFile imagePath), ReadFile (assetFile imagePath)]
         else [Sharp (assetFile imagePath)])
      else [ReadFile (assetFile imagePath)])"

definition dataUriOf :: "string \<Rightarrow> bytes \<Rightarrow> string" where
  "dataUriOf imagePath buf =
     ''data:'' @ (if endsWith imagePath ''.png'' then ''image/png'' else ''image/jpeg'')
       @ '';base64,'' @ base64 buf"

subsection \<open>Sample environments and requests\<close>

definition noAssets :: assets where
  "noAssets =
     \<lparr>files = Map.empty, sharpLoaded = False, sharpOutput = Map.empty,
      imageDataUriCache = Map.empty, calls = []\<rparr>"

definition stanAssets :: assets where
  "stanAssets =
     \<lparr>files = [''assets/stan.png'' \<mapsto> [77, 97, 110]], sharpLoaded = True,
      sharpOutput = Map.empty, imageDataUriCache = Map.empty, calls = []\<rparr>"

definition freshServer :: server where
  "freshServer = \<lparr>counters = emptyBackend False, assetCache = noAssets\<rparr>"

definition overrideQuery :: query where
  "overrideQuery =
     \<lparr>padding = 7, offset = 0, scale = 1, align = Top, darkmode = DarkAuto, pixelated = 1,
      prefix = [], num = 5, inc = 1, order = []\<rparr>"

definition countingQuery :: query where
  "countingQuery = overrideQuery\<lparr>num := 0\<rparr>"

definition peekQuery :: query where
  "peekQuery = overrideQuery\<lparr>num := 0, inc := 0\<rparr>"


section \<open>Properties of the numbers\<close>

subsection \<open>Logarithms\<close>

lemma powb_nonneg_exp: "0 \<le> e \<Longrightarrow> powb b e = of_int (b ^ nat e)"
  by (simp add: powb_def)

lemma powb_pos: "0 < b \<Longrightarrow> 0 < powb b e"
  by (simp add: powb_def)

lemma intlog_small: "2 \<le> b \<Longrightarrow> n < b \<Longrightarrow> intlog b n = 0"
  by (simp add: intlog.simps)

lemma intlog_large: "2 \<le> b \<Longrightarrow> b \<le> n \<Longrightarrow> intlog b n = intlog b (n div b) + 1"
  by (subst intlog.simps) simp

lemma intlog_nonneg: "0 \<le> intlog b n"
proof (induction b n rule: intlog.induct)
  case (1 b n)
  show ?case
  proof (cases "b < 2 \<or> n < b")
    case True
    then show ?thesis by (simp add: intlog.simps)
  next
    case False
    with "1" have "0 \<le> intlog b (n div b)" by simp
    with False show ?thesis by (subst intlog.simps) simp
  qed
qed

lemma intlog_bounds:
  assumes "2 \<le> b" and "1 \<le> n"
  shows "b ^ nat (intlog b n) \<le> n \<and> n < b ^ Suc (nat (intlog b n))"
  using assms
proof (induction b n rule: intlog.induct)
  case (1 b n)
  show ?case
  proof (cases "n < b")
    case True
    with "1.prems" show ?thesis by (simp add: intlog_small)
  next
    case False
    then have bn: "b \<le> n" by simp
    let ?q = "n div b"
    let ?k = "nat (intlog b ?q)"
    from bn "1.prems" have q1: "1 \<le> ?q"
      using pos_imp_zdiv_pos_iff [of b n] by simp
    from "1.IH" False "1.prems" q1 have ih: "b ^ ?k \<le> ?q" "?q < b ^ Suc ?k"
      by auto
    have il: "nat (intlog b n) = Suc ?k"
      using intlog_large [OF "1.prems"(1) bn] intlog_nonneg [of b ?q] by simp
    have lo: "b ^ Suc ?k \<le> n"
    proof -
      have "b ^ Suc ?k = b * b ^ ?k" by simp
      also have "\<dots> \<le> b * ?q" using ih(1) "1.prems" by (intro mult_left_mono) auto
      also have "\<dots> \<le> n"
      proof -
        have "n = b * ?q + n mod b" by simp
        moreover have "0 \<le> n mod b" using "1.prems" by simp
        ultimately show ?thesis by linarith
      qed
      finally show ?thesis .
    qed
    have hi: "n < b ^ Suc (Suc ?k)"
    proof -
      have "n < b * (?q + 1)"
      proof -
        have "n = b * ?q + n mod b" by simp
        moreover have "n mod b < b" using "1.prems" by simp
        moreover have "b * (?q + 1) = b * ?q + b" by (simp add: algebra_simps)
        ultimately show ?thesis by linarith
      qed
      also have "\<dots> \<le> b * b ^ Suc ?k"
        using ih(2) "1.prems" by (intro mult_left_mono) auto
      finally show ?thesis by simp
    qed
    from lo hi il show ?thesis by simp
  qed
qed



lemma ratlog_of_int:
  assumes "2 \<le> b" and "1 \<le> n"
  shows "ratlog b (of_int n) = intlog b n"
proof -
  have q: "quotient_of (of_int n) = (n, 1)" by simp
  have one: "intlog b 1 = 0" using assms by (simp add: intlog_small)
  have "powb b (intlog b n) = of_int (b ^ nat (intlog b n))"
    by (simp add: powb_nonneg_exp intlog_nonneg)
  also have "\<dots> \<le> of_int n"
    using intlog_bounds [OF assms] by (simp only: of_int_le_iff)
  finally show ?thesis
    by (simp add: ratlog_def q one)
qed

subsection \<open>Integers a double holds exactly\<close>

lemma roundHalfEven_of_int: "roundHalfEven (of_int n) = n"
  by (simp add: roundHalfEven_def)


lemma roundToDouble_minus: "roundToDouble (- q) = - roundToDouble q"
  by (simp add: roundToDouble_def Let_def)

lemma roundToDouble_pos:
  "0 < a \<Longrightarrow> roundToDouble a
     = of_int (roundHalfEven (a / powb 2 (max (ratlog 2 a - 52) (- 1074))))
       * powb 2 (max (ratlog 2 a - 52) (- 1074))"
  by (simp add: roundToDouble_def Let_def)

lemma roundToDouble_pos_int:
  assumes "0 < n" and "n \<le> 2 ^ 53"
  shows "roundToDouble (of_int n) = of_int n"
proof -
  let ?e = "intlog 2 n"
  from assms have n1: "1 \<le> n" by simp
  have two: "(2::int) \<le> 2" by simp
  have e: "ratlog 2 (of_int n) = ?e"
    by (rule ratlog_of_int [OF two n1])
  note bd = intlog_bounds [OF two n1]
  have e53: "nat ?e \<le> 53"
  proof (rule power_le_imp_le_exp)
    show "(1::int) < 2" by simp
    from assms bd show "(2::int) ^ nat ?e \<le> 2 ^ 53" by linarith
  qed
  have pos: "(0::rat) < of_int n" using assms by simp
  show ?thesis
  proof (cases "nat ?e = 53")
    case True
    with bd assms have n: "n = 2 ^ 53" by simp
    from True have ev: "?e = 53" by simp
    have "(of_int n :: rat) / powb 2 1 = of_int (2 ^ 52)"
      by (simp add: n powb_def)
    then have "roundHalfEven (of_int n / powb 2 1) = 2 ^ 52"
      by (simp only: roundHalfEven_of_int)
    then show ?thesis
      by (simp add: roundToDouble_pos [OF pos] e ev) (simp add: n powb_def)
  next
    case False
    with e53 have le: "?e \<le> 52" by simp
    let ?j = "nat (52 - ?e)"
    have p: "powb 2 (?e - 52) = 1 / 2 ^ ?j"
    proof (cases "?e = 52")
      case True
      then show ?thesis by (simp add: powb_def)
    next
      case False
      with le have "?e - 52 < 0" by simp
      then show ?thesis by (simp add: powb_def)
    qed
    have mx: "max (?e - 52) (- 1074) = ?e - 52"
      using intlog_nonneg [of 2 n] by simp
    have "(of_int n :: rat) / powb 2 (?e - 52) = of_int (n * 2 ^ ?j)"
      by (simp add: p)
    then have m: "roundHalfEven (of_int n / powb 2 (?e - 52)) = n * 2 ^ ?j"
      by (simp only: roundHalfEven_of_int)
    show ?thesis
      by (simp add: roundToDouble_pos [OF pos] e mx m) (simp add: p)
  qed
qed

lemma roundToDouble_int:
  assumes "\<bar>n\<bar> \<le> 2 ^ 53"
  shows "roundToDouble (of_int n) = of_int n"
proof -
  consider "n = 0" | "0 < n" | "n < 0" by linarith
  then show ?thesis
  proof cases
    case 1
    then show ?thesis by (simp add: roundToDouble_def)
  next
    case 2
    with assms show ?thesis by (intro roundToDouble_pos_int) simp_all
  next
    case 3
    with assms have "roundToDouble (of_int (- n)) = of_int (- n)"
      by (intro roundToDouble_pos_int) simp_all
    then show ?thesis
      using roundToDouble_minus [of "of_int n"] by simp
  qed
qed


subsection \<open>Decimal numerals\<close>












subsection \<open>String(value) of an integer\<close>






section \<open>Properties of the counter store\<close>

subsection \<open>Reading and writing never fail\<close>

lemma readStore_total: "\<exists>store. readStore b = Inr store"
  by (auto simp: readStore_def tryCatch_def andThen_def redis_get_def fs_readFileSync_def
      JSON_parse_def split: sum.splits rdata.splits rawtext.splits option.splits)

lemma writeStore_eq:
  "writeStore b store
     = Inr (if accepts b (JSON_stringify store) then holding b (JSON_stringify store) else b)"
  by (simp add: writeStore_def tryCatch_def redis_set_def fs_writeFileSync_def accepts_def
      holding_def)


lemma readStore_holding:
  "accepts b (Wellformed j) \<Longrightarrow> readStore (holding b (Wellformed j)) = Inr (objectOrEmpty j)"
  by (auto simp: accepts_def holding_def readStore_def tryCatch_def andThen_def redis_get_def
      fs_readFileSync_def JSON_parse_def split: if_splits)

lemma accepts_holding: "accepts (holding b t) t' = accepts b t'"
  by (simp add: accepts_def holding_def)

lemma getAndIncrementCounter_eq:
  assumes "readStore b = Inr store"
  shows "getAndIncrementCounter b name
           = (let v = roundToDouble (finiteOrZero store name + 1);
                  t = JSON_stringify (assign store name v)
              in Inr (v, if accepts b t then holding b t else b))"
  by (simp add: getAndIncrementCounter_def andThen_def assms Let_def writeStore_eq)

lemma peekCounter_eq: "readStore b = Inr store \<Longrightarrow> peekCounter b name = Inr (finiteOrZero store name)"
  by (simp add: peekCounter_def andThen_def)




lemma roundToDouble_1: "roundToDouble 1 = 1"
  using roundToDouble_int [of 1] by simp



lemma readStore_fileBackend: "readStore (fileBackend j) = Inr (objectOrEmpty j)"
  by (simp add: fileBackend_def emptyBackend_def readStore_def tryCatch_def andThen_def
      fs_readFileSync_def JSON_parse_def)

lemma accepts_fileBackend: "accepts (fileBackend j) t"
  by (simp add: fileBackend_def emptyBackend_def accepts_def)


lemma increment_fileBackend:
  "getAndIncrementCounter (fileBackend j) name
     = (let v = roundToDouble (finiteOrZero (objectOrEmpty j) name + 1);
            t = JSON_stringify (assign (objectOrEmpty j) name v)
        in Inr (v, holding (fileBackend j) t))"
  by (simp add: getAndIncrementCounter_eq [OF readStore_fileBackend] accepts_fileBackend Let_def)

lemma roundToDouble_samples:
  "roundToDouble (5 / 2) = 5 / 2" "roundToDouble 1 = 1" "roundToDouble 3 = 3"
  "roundToDouble 5 = 5" "roundToDouble 9007199254740993 = 9007199254740992"
  by code_simp+




text \<open>At \<open>2^53\<close> the increment no longer counts: \<open>2^53 + 1\<close> rounds to \<open>2^53\<close>.\<close>

lemma increment_saturates:
  "map_sum id fst
     (getAndIncrementCounter (fileBackend (JObject [''kenny'' \<mapsto> JNumber 9007199254740992]))
        ''kenny'')
     = Inr 9007199254740992"
  by (simp add: increment_fileBackend finiteOrZero_def roundToDouble_samples Let_def)

subsection \<open>The increment touches one entry\<close>

lemma increment_written:
  assumes rs: "readStore b = Inr (Plain store)"
    and g: "getAndIncrementCounter b name = Inr (v, b')"
  shows "\<exists>doc. b' = (if accepts b (Wellformed (JObject doc))
                     then holding b (Wellformed (JObject doc)) else b)
           \<and> (\<forall>k. k \<noteq> name \<longrightarrow> doc k = map_option toJSON (store k))
           \<and> doc name = (if name = ''__proto__'' \<and> store name = None then None
                          else Some (JNumber v))
           \<and> v = roundToDouble (finiteOrZero (Plain store) name + 1)
           \<and> (accepts b (Wellformed (JObject doc)) \<longrightarrow> readStore b' = Inr (Plain doc))"
proof -
  let ?v = "roundToDouble (finiteOrZero (Plain store) name + 1)"
  define doc where "doc = (\<lambda>k. if k = name \<and> \<not> (name = ''__proto__'' \<and> store name = None)
                   then Some (JNumber ?v) else map_option toJSON (store k))"
  have t: "JSON_stringify (assign (Plain store) name ?v) = Wellformed (JObject doc)"
    by (auto simp: doc_def fun_eq_iff)
  have "getAndIncrementCounter b name
          = Inr (?v, if accepts b (Wellformed (JObject doc))
                     then holding b (Wellformed (JObject doc)) else b)"
    by (simp only: getAndIncrementCounter_eq [OF rs] Let_def t)
  with g have v: "v = ?v"
    and b': "b' = (if accepts b (Wellformed (JObject doc))
                   then holding b (Wellformed (JObject doc)) else b)"
    by simp_all
  have fr: "\<forall>k. k \<noteq> name \<longrightarrow> doc k = map_option toJSON (store k)"
    by (simp add: doc_def)
  have nm: "doc name = (if name = ''__proto__'' \<and> store name = None then None
                          else Some (JNumber v))"
    by (auto simp: doc_def v)
  have rd: "accepts b (Wellformed (JObject doc)) \<longrightarrow> readStore b' = Inr (Plain doc)"
    using readStore_holding [of b "JObject doc"] b' by simp
  from b' fr nm v rd show ?thesis by blast
qed






subsection \<open>Counting from an empty store\<close>

lemma upt_shift: "map f [1..<Suc (Suc n)] = f 1 # map (\<lambda>i. f (Suc i)) [1..<Suc n]"
proof -
  have "[1..<Suc (Suc n)] = 1 # [Suc 1..<Suc (Suc n)]"
    by (simp add: upt_conv_Cons del: upt_Suc)
  also have "[Suc 1..<Suc (Suc n)] = map Suc [1..<Suc n]"
    by (simp only: map_Suc_upt)
  finally show ?thesis by (simp add: comp_def del: upt_Suc)
qed

lemma writesSucceed_holding: "writesSucceed b \<Longrightarrow> writesSucceed (holding b t)"
  by (simp add: writesSucceed_def accepts_holding)

lemma increment_step:
  assumes ok: "writesSucceed b" and rs: "readStore b = Inr (Plain store)"
    and nm: "name \<noteq> ''__proto__'' \<or> store name \<noteq> None"
    and c: "finiteOrZero (Plain store) name = of_int c" "\<bar>c + 1\<bar> \<le> 2 ^ 53"
  shows "\<exists>b' store'. getAndIncrementCounter b name = Inr (of_int (c + 1), b')
           \<and> writesSucceed b' \<and> readStore b' = Inr (Plain store')
           \<and> finiteOrZero (Plain store') name = of_int (c + 1)"
proof -
  obtain v b' where g: "getAndIncrementCounter b name = Inr (v, b')"
    by (simp add: getAndIncrementCounter_eq [OF rs] Let_def)
  from increment_written [OF rs g] obtain doc
    where b': "b' = (if accepts b (Wellformed (JObject doc))
                     then holding b (Wellformed (JObject doc)) else b)"
      and d: "doc name = (if name = ''__proto__'' \<and> store name = None then None
                          else Some (JNumber v))"
      and v: "v = roundToDouble (finiteOrZero (Plain store) name + 1)"
      and r: "accepts b (Wellformed (JObject doc)) \<longrightarrow> readStore b' = Inr (Plain doc)"
    by blast
  from ok have a: "accepts b (Wellformed (JObject doc))"
    by (simp add: writesSucceed_def)
  have "roundToDouble (of_int (c + 1)) = of_int (c + 1)"
    by (rule roundToDouble_int [OF c(2)])
  with v c(1) have v': "v = of_int (c + 1)" by simp
  from a b' ok have ok': "writesSucceed b'"
    by (simp add: writesSucceed_holding)
  from d nm have "finiteOrZero (Plain doc) name = v"
    by (auto simp: finiteOrZero_def)
  with g r a ok' v' show ?thesis by blast
qed

text \<open>
  For every name but \<^verbatim>\<open>__proto__\<close> (and for that one too once the document holds it as
  an own entry), n calls in a row count on from a stored integer, as long as the writes
  succeed and the count stays within the integers a double holds exactly.
\<close>

lemma incrementTimes_counts:
  assumes "writesSucceed b" and "readStore b = Inr (Plain store)"
    and "name \<noteq> ''__proto__'' \<or> store name \<noteq> None"
    and "finiteOrZero (Plain store) name = of_int c" and "0 \<le> c" and "c + int n \<le> 2 ^ 53"
  shows "\<exists>b'. incrementTimes n b name = Inr (map (\<lambda>i. of_int (c + int i)) [1..<Suc n], b')"
  using assms
proof (induction n arbitrary: b store c)
  case 0
  then show ?case by simp
next
  case (Suc n)
  from Suc.prems have c1: "\<bar>c + 1\<bar> \<le> 2 ^ 53" by simp
  from increment_step [OF Suc.prems(1,2,3,4) c1]
  obtain b1 store1 where g: "getAndIncrementCounter b name = Inr (of_int (c + 1), b1)"
    and ok1: "writesSucceed b1" and rs1: "readStore b1 = Inr (Plain store1)"
    and v1: "finiteOrZero (Plain store1) name = of_int (c + 1)"
    by blast
  have own: "name \<noteq> ''__proto__'' \<or> store1 name \<noteq> None"
  proof (cases "store1 name")
    case None
    with v1 have "(of_int (c + 1) :: rat) = 0" by (simp add: finiteOrZero_def)
    then have "c + 1 = 0" by (simp only: of_int_eq_0_iff)
    with Suc.prems show ?thesis by simp
  next
    case (Some a)
    then show ?thesis by simp
  qed
  from Suc.prems have "0 \<le> c + 1" "c + 1 + int n \<le> 2 ^ 53" by simp_all
  from Suc.IH [OF ok1 rs1 own v1 this]
  obtain b2 where it: "incrementTimes n b1 name =
      Inr (map (\<lambda>i. of_int (c + 1 + int i)) [1..<Suc n], b2)"
    by auto
  have m: "(of_int (c + 1) :: rat) # map (\<lambda>i. of_int (c + 1 + int i)) [1..<Suc n]
           = map (\<lambda>i. of_int (c + int i)) [1..<Suc (Suc n)]"
  proof -
    have "map (\<lambda>i. (of_int (c + int i) :: rat)) [1..<Suc (Suc n)]
          = of_int (c + int 1) # map (\<lambda>i. of_int (c + int (Suc i))) [1..<Suc n]"
      by (rule upt_shift)
    also have "\<dots> = of_int (c + 1) # map (\<lambda>i. of_int (c + 1 + int i)) [1..<Suc n]"
      by (simp add: algebra_simps del: upt_Suc)
    finally show ?thesis by simp
  qed
  show ?case
    by (simp only: incrementTimes.simps g it andThen_def sum.case prod.case m)
      (simp del: upt_Suc)
qed

lemma readStore_empty: "readStore (emptyBackend r) = Inr (Plain Map.empty)"
  by (simp add: emptyBackend_def readStore_def tryCatch_def andThen_def redis_get_def
      fs_readFileSync_def)

lemma incrementTimes_from_empty:
  assumes "name \<noteq> ''__proto__''" and "int n \<le> 2 ^ 53"
  shows "\<exists>b'. incrementTimes n (emptyBackend r) name = Inr (map of_nat [1..<Suc n], b')"
proof -
  have ok: "writesSucceed (emptyBackend r)"
    by (simp add: writesSucceed_def accepts_def emptyBackend_def)
  have z: "finiteOrZero (Plain Map.empty) name = of_int 0"
    by (simp add: finiteOrZero_def)
  from incrementTimes_counts [OF ok readStore_empty _ z, of n] assms
  show ?thesis by (simp del: upt_Suc)
qed

text \<open>
  Claim C3. From an empty store, with every write succeeding, n calls of
  \<^verbatim>\<open>getAndIncrementCounter\<close> for one name should return 1, 2, ..., n. They do for every
  name (\<open>incrementTimes_from_empty\<close>, up to \<open>2^53\<close> calls) except the name \<^verbatim>\<open>__proto__\<close>:
  there the assignment \<^verbatim>\<open>store[name] = nextValue\<close> stores nothing, the document written
  is \<^verbatim>\<open>{}\<close> each time, and three calls in a row return 1, 1, 1.
\<close>

theorem proto_counter_stuck:
  "incrementTimes 3 (emptyBackend False) ''__proto__''
     = Inr ([1, 1, 1], (emptyBackend False)\<lparr>jsonFile := Some (Wellformed (JObject Map.empty))\<rparr>)"
  by (simp add: eval_nat_numeral getAndIncrementCounter_def andThen_def readStore_def
      writeStore_def tryCatch_def fs_readFileSync_def fs_writeFileSync_def JSON_parse_def
      emptyBackend_def finiteOrZero_def roundToDouble_1 Let_def)


section \<open>Properties of the renderer\<close>

subsection \<open>The display string\<close>

lemma display_samples:
  "displayStrOf [] 5 7 = ''0000005''" "displayStrOf [] 12345678 3 = ''12345678''"
  "displayStrOf ''SP-'' 42 4 = ''SP-0042''" "displayStrOf [] 1 7 = ''0000001''"
  "displayStrOf [] 0 7 = ''0000000''" "displayStrOf ''v'' 305 5 = ''v00305''"
  "String_of 305 = ''305''"
  by code_simp+




subsection \<open>The loops in closed form\<close>

lemma upt_head: "[i..<Suc (i + n)] = i # [Suc i..<Suc (i + n)]"
  by (rule upt_conv_Cons) simp

lemma forEach_sum:
  "forEach (\<lambda>c idx (acc :: rat). acc + g idx) i cs a = a + sum_list (map g [i..<i + length cs])"
proof (induction cs arbitrary: i a)
  case Nil
  then show ?case by simp
next
  case (Cons c cs)
  show ?case
    by (simp add: Cons.IH upt_head add.assoc del: upt_Suc)
qed

lemma forEach_max:
  "forEach (\<lambda>c idx (m :: rat). max m (h idx)) i cs a = fold max (map h [i..<i + length cs]) a"
proof (induction cs arbitrary: i a)
  case Nil
  then show ?case by simp
next
  case (Cons c cs)
  show ?case
    by (simp add: Cons.IH upt_head max.commute del: upt_Suc)
qed

lemma forEach_collect:
  assumes step: "\<And>c idx out x. \<exists>d x'. step c idx (out, x) = (out @ [d], x') \<and> P d = q c idx"
  shows "map P (fst (forEach step i cs (out, x)))
           = map P out @ map (\<lambda>(j, c). q c j) (zip [i..<i + length cs] cs)"
proof (induction cs arbitrary: i out x)
  case Nil
  then show ?case by simp
next
  case (Cons c cs)
  from step obtain d x' where s: "step c i (out, x) = (out @ [d], x')" and p: "P d = q c i"
    by blast
  show ?case
    by (simp add: s Cons.IH p upt_head del: upt_Suc)
qed

lemma totalWidth_sum:
  "totalWidth ds co
     = sum_list (map (\<lambda>i. digitWidth * scaleOf (selectGlyph (characterImagesOf co) i))
         [0..<length ds])"
proof -
  have "totalWidth ds co
      = forEach (\<lambda>c idx acc. acc + digitWidth * scaleOf (selectGlyph (characterImagesOf co) idx))
          0 ds 0"
    by (simp add: totalWidth_def digitGap_def paddingX_def Let_def cong: if_cong)
  then show ?thesis by (simp add: forEach_sum)
qed

lemma totalHeight_fold:
  "totalHeight ds co
     = fold max (map (\<lambda>i. digitHeight * scaleOf (selectGlyph (characterImagesOf co) i))
         [0..<length ds]) digitHeight"
  by (simp add: totalHeight_def Let_def forEach_max)

lemma map_zip_fst: "length xs = length ys \<Longrightarrow> map (\<lambda>(j, c). f j) (zip xs ys) = map f xs"
  by (induction xs ys rule: list_induct2) simp_all

lemma map_zip_snd: "length xs = length ys \<Longrightarrow> map (\<lambda>(j, c). f c) (zip xs ys) = map f ys"
  by (induction xs ys rule: list_induct2) simp_all

lemma digits_imgPath:
  "map imgPath (digits cache ds co off)
     = map (\<lambda>i. selectGlyph (characterImagesOf co) i) [0..<length ds]"
proof -
  have "map imgPath (digits cache ds co off)
      = map (\<lambda>(j, c). selectGlyph (characterImagesOf co) j) (zip [0..<length ds] ds)"
    unfolding digits_def
    by (subst forEach_collect [where q = "\<lambda>c j. selectGlyph (characterImagesOf co) j"])
      (simp_all add: Let_def)
  then show ?thesis by (simp add: map_zip_fst)
qed

lemma digits_char: "map char (digits cache ds co off) = ds"
proof -
  have "map char (digits cache ds co off) = map (\<lambda>(j, c). c) (zip [0..<length ds] ds)"
    unfolding digits_def
    by (subst forEach_collect [where q = "\<lambda>c j. c"]) (simp_all add: Let_def)
  then show ?thesis by (simp add: map_zip_snd)
qed

lemma digits_charHeight:
  "map charHeight (digits cache ds co off)
     = map (\<lambda>i. digitHeight * scaleOf (selectGlyph (characterImagesOf co) i)) [0..<length ds]"
proof -
  have "map charHeight (digits cache ds co off)
      = map (\<lambda>(j, c). digitHeight * scaleOf (selectGlyph (characterImagesOf co) j))
          (zip [0..<length ds] ds)"
    unfolding digits_def
    by (subst forEach_collect
        [where q = "\<lambda>c j. digitHeight * scaleOf (selectGlyph (characterImagesOf co) j)"])
      (simp_all add: Let_def)
  then show ?thesis by (simp add: map_zip_fst)
qed

lemma digits_length: "length (digits cache ds co off) = length ds"
  using arg_cong [OF digits_char, of length cache ds co off] by simp

lemma characterScales_range: "characterScales k = Some s \<Longrightarrow> 0 < s \<and> s \<le> 1"
  by (auto simp: characterScales_def split: if_splits)

lemma scaleOf_range: "0 < scaleOf h \<and> scaleOf h \<le> 1"
proof (cases "Option.bind h characterScales")
  case None
  then show ?thesis by (simp add: scaleOf_def)
next
  case (Some s)
  then obtain k where "characterScales k = Some s"
    by (cases h) auto
  from characterScales_range [OF this] Some show ?thesis
    by (simp add: scaleOf_def)
qed


subsection \<open>Canvas width\<close>

text \<open>
  Claim C9. For a fixed glyph order the canvas width never shrinks when the display string
  grows: appending one character gives a canvas at least as wide, and more generally a
  display string that is at least as long gives a canvas at least as wide (the width
  depends on the string through its length only).
\<close>

theorem width_monotone:
  "totalWidth ds co \<le> totalWidth (ds @ [c]) co
   \<and> (length s \<le> length t \<longrightarrow> totalWidth s co \<le> totalWidth t co)"
proof -
  let ?g = "\<lambda>i. digitWidth * scaleOf (selectGlyph (characterImagesOf co) i)"
  have pos: "0 \<le> ?g i" for i
    using scaleOf_range [of "selectGlyph (characterImagesOf co) i"]
    by (simp add: digitWidth_def)
  have mono: "totalWidth s co \<le> totalWidth t co" if "length s \<le> length t" for s t
  proof -
    from that have "[0..<length t] = [0..<length s] @ [length s..<length t]"
      by (metis le_add_diff_inverse upt_add_eq_append zero_le)
    then have "totalWidth t co = totalWidth s co + sum_list (map ?g [length s..<length t])"
      by (simp add: totalWidth_sum)
    moreover have "0 \<le> sum_list (map ?g [length s..<length t])"
      by (rule sum_list_nonneg) (use pos in auto)
    ultimately show ?thesis by simp
  qed
  from mono [of ds "ds @ [c]"] mono show ?thesis by simp
qed

theorem width_monotone_witness:
  "totalWidth ''007'' [''/assets/timmy.png''] = 336
   \<and> totalWidth ''0007'' [''/assets/timmy.png''] = 448
   \<and> totalWidth ''007'' [''/assets/timmy.png''] \<le> totalWidth ''0007'' [''/assets/timmy.png'']"
proof -
  have a: "totalWidth ''007'' [''/assets/timmy.png''] = 336"
    by code_simp
  have b: "totalWidth ''0007'' [''/assets/timmy.png''] = 448"
    by code_simp
  from width_monotone [of "''007''" "[''/assets/timmy.png'']" "CHR ''0''" "''007''" "''0007''"]
  show ?thesis by (simp add: a b)
qed

subsection \<open>Canvas height\<close>

lemma fold_max_Max: "fold max (xs :: rat list) a = Max (set (a # xs))"
  by (rule Max.set_eq_fold [symmetric])

text \<open>
  Claim C2, as the code has it. The canvas height is the larger of the nominal glyph height
  \<^verbatim>\<open>digitHeight\<close> (112) and the tallest glyph box, because \<^verbatim>\<open>maxHeight\<close> starts from
  \<^verbatim>\<open>digitHeight\<close>. No render scale exceeds 1, so no box is taller than 112 and the canvas
  height is 112 for every display string and every glyph order; with glyphs scaled below 1
  it is the unscaled height, not the tallest scaled box.
\<close>

theorem height_floor:
  "totalHeight ds co = digitHeight
   \<and> (ds \<noteq> [] \<longrightarrow> totalHeight ds co = max digitHeight (tallestBox ds co))"
proof -
  let ?hs = "map (\<lambda>i. digitHeight * scaleOf (selectGlyph (characterImagesOf co) i)) [0..<length ds]"
  have f: "totalHeight ds co = Max (set (digitHeight # ?hs))"
    by (simp only: totalHeight_fold fold_max_Max)
  have le: "h \<le> digitHeight" if "h \<in> set ?hs" for h
  proof -
    from that obtain i where "h = digitHeight * scaleOf (selectGlyph (characterImagesOf co) i)"
      by auto
    with scaleOf_range [of "selectGlyph (characterImagesOf co) i"] show ?thesis
      by (simp add: digitHeight_def)
  qed
  have a: "totalHeight ds co = digitHeight"
    unfolding f by (rule Max_eqI) (use le in auto)
  have b: "totalHeight ds co = max digitHeight (tallestBox ds co)" if "ds \<noteq> []"
  proof -
    from that have ne: "set ?hs \<noteq> {}" by simp
    have "Max (set (digitHeight # ?hs)) = max digitHeight (Max (set ?hs))"
      using ne by (simp del: set_map set_upt)
    then show ?thesis
      by (simp only: f tallestBox_def digits_charHeight)
  qed
  from a b show ?thesis by blast
qed

theorem height_floor_witness:
  "totalHeight ''42'' [''/assets/stan.png'', ''/assets/timmy.png''] = 112
   \<and> tallestBox ''42'' [''/assets/stan.png'', ''/assets/timmy.png''] = 448 / 5"
proof -
  have t: "tallestBox ''42'' [''/assets/stan.png'', ''/assets/timmy.png''] = 448 / 5"
    by code_simp
  from height_floor [of "''42''" "[''/assets/stan.png'', ''/assets/timmy.png'']"]
  show ?thesis by (simp add: t digitHeight_def)
qed

text \<open>
  Claim C2 as stated fails: one character drawn with the glyph \<^verbatim>\<open>stan\<close> (scale 0.6) has
  a box 67.2 high, and the canvas is 112 high.
\<close>

theorem height_not_tallest_box:
  "totalHeight ''0'' [''/assets/stan.png''] = 112
   \<and> tallestBox ''0'' [''/assets/stan.png''] = 336 / 5
   \<and> totalHeight ''0'' [''/assets/stan.png''] \<noteq> tallestBox ''0'' [''/assets/stan.png'']"
  by code_simp

subsection \<open>Cyclic glyph assignment\<close>

text \<open>
  Claim C8. With a non-empty glyph sequence, the element drawn at character index \<open>i\<close> of
  the display string shows that character on the glyph at index \<open>i mod length\<close> of the
  sequence, and there is one element per character. A sequence of two glyphs A, B over five
  characters gives A, B, A, B, A.
\<close>

theorem glyph_cycle:
  assumes "co \<noteq> []" and "i < length ds"
  shows "length (digits cache ds co off) = length ds
         \<and> char (digits cache ds co off ! i) = ds ! i
         \<and> imgPath (digits cache ds co off ! i) = Some (co ! (i mod length co))
         \<and> map imgPath (digits cache [c0, c1, c2, c3, c4] [A, B] off)
             = [Some A, Some B, Some A, Some B, Some A]"
proof -
  have l: "length (digits cache ds co off) = length ds"
    by (rule digits_length)
  have "char (digits cache ds co off ! i) = map char (digits cache ds co off) ! i"
    using assms l by simp
  then have c: "char (digits cache ds co off ! i) = ds ! i"
    by (simp only: digits_char)
  have "imgPath (digits cache ds co off ! i) = map imgPath (digits cache ds co off) ! i"
    using assms l by simp
  also have "\<dots> = selectGlyph (characterImagesOf co) i"
    using assms by (simp add: digits_imgPath)
  also have "\<dots> = Some (co ! (i mod length co))"
    using assms by (simp add: selectGlyph_def characterImagesOf_def)
  finally have g: "imgPath (digits cache ds co off ! i) = Some (co ! (i mod length co))" .
  have e: "map imgPath (digits cache [c0, c1, c2, c3, c4] [A, B] off)
             = [Some A, Some B, Some A, Some B, Some A]"
    by (simp add: digits_def selectGlyph_def characterImagesOf_def Let_def mod_Suc)
  from l c g e show ?thesis by blast
qed

theorem glyph_cycle_witness:
  "imgPath (digits Map.empty ''00042'' [''/assets/stan.png'', ''/assets/kyle.png''] 0 ! 4)
     = Some ''/assets/stan.png''
   \<and> char (digits Map.empty ''00042'' [''/assets/stan.png'', ''/assets/kyle.png''] 0 ! 4) = CHR ''2''"
proof -
  have n: "[''/assets/stan.png'', ''/assets/kyle.png''] \<noteq> []" by simp
  have i: "4 < length ''00042''" by simp
  from glyph_cycle [OF n i, of Map.empty 0] show ?thesis
    by (simp add: eval_nat_numeral mod_Suc)
qed

subsection \<open>The glyph order of a request\<close>

lemma resolveKeys_keeps: "resolved \<noteq> [] \<Longrightarrow> resolveKeys keys seen resolved \<noteq> []"
  by (induction keys arbitrary: seen resolved) (simp_all add: Let_def split: option.splits)

lemma resolveKeys_empty_iff:
  "resolveKeys keys {} [] = [] \<longleftrightarrow> list_all (\<lambda>k. lookupKey (replaceSpaces k) = None) keys"
proof (induction keys)
  case Nil
  then show ?case by simp
next
  case (Cons k keys)
  show ?case
  proof (cases "lookupKey (replaceSpaces k)")
    case None
    with Cons show ?thesis by simp
  next
    case (Some path)
    have "resolveKeys keys {path} [path] \<noteq> []"
      by (rule resolveKeys_keeps) simp
    with Some show ?thesis by simp
  qed
qed

lemma orderKeys_Nil: "orderKeys [] = []"
  by (simp add: orderKeys_def trim_def toLowerCase_def)

lemma parseOrder_None_iff:
  "parseOrder orderStr = None
     \<longleftrightarrow> list_all (\<lambda>k. lookupKey (replaceSpaces k) = None) (orderKeys orderStr)"
proof (cases "orderStr = []")
  case True
  then show ?thesis by (simp add: parseOrder_def orderKeys_Nil)
next
  case False
  then show ?thesis
    by (simp add: parseOrder_def Let_def resolveKeys_empty_iff)
qed

lemma parseOrder_Some: "parseOrder orderStr = Some resolved \<Longrightarrow> resolved \<noteq> []"
  by (auto simp: parseOrder_def Let_def split: if_splits)

lemma defaultCharacterImages_nonempty: "defaultCharacterImages \<noteq> []"
  by (simp add: defaultCharacterImages_def)

lemma characterImagesOf_nonempty: "characterImagesOf co \<noteq> []"
  by (simp add: characterImagesOf_def defaultCharacterImages_nonempty)

text \<open>
  \<^verbatim>\<open>parseOrder\<close> returns null only for an order string without a valid key, and for
  every order string without a valid key that names neither \<^verbatim>\<open>constructor\<close> nor
  \<^verbatim>\<open>__proto__\<close> it does return null, so that the default sequence is drawn.
\<close>

lemma parseOrder_None_noValidKeys: "parseOrder orderStr = None \<Longrightarrow> noValidKeys orderStr"
proof -
  have "lookupKey k = None \<Longrightarrow> characterKeyToPath k = None" for k
    by (cases "characterKeyToPath k") (simp_all add: lookupKey_def)
  then show "parseOrder orderStr = None \<Longrightarrow> noValidKeys orderStr"
    unfolding parseOrder_None_iff noValidKeys_def list_all_iff by blast
qed

lemma order_fallback_own_keys:
  assumes "noValidKeys orderStr"
    and "list_all (\<lambda>rawKey. replaceSpaces rawKey \<noteq> ''constructor''
                     \<and> replaceSpaces rawKey \<noteq> ''__proto__'') (orderKeys orderStr)"
  shows "parseOrder orderStr = None
         \<and> characterImagesOf (imagesToLoad (parseOrder orderStr)) = defaultCharacterImages"
proof -
  have "characterKeyToPath k = None \<Longrightarrow> k \<noteq> ''constructor'' \<Longrightarrow> k \<noteq> ''__proto__''
        \<Longrightarrow> lookupKey k = None" for k
    by (simp add: lookupKey_def)
  with assms have "parseOrder orderStr = None"
    unfolding parseOrder_None_iff noValidKeys_def list_all_iff by blast
  then show ?thesis
    by (simp add: imagesToLoad_def characterImagesOf_def)
qed

text \<open>
  For every order string the sequence the route passes on is non-empty, and whatever
  sequence the renderer is given, the one it draws from is non-empty: the index
  \<open>idx mod length\<close> lies inside it and the selection is never \<^verbatim>\<open>undefined\<close>.
\<close>

lemma glyph_selection_safe:
  "noValidKeys []
   \<and> defaultCharacterImages \<noteq> []
   \<and> imagesToLoad (parseOrder orderStr) \<noteq> []
   \<and> characterImagesOf co \<noteq> []
   \<and> idx mod length (characterImagesOf co) < length (characterImagesOf co)
   \<and> selectGlyph (characterImagesOf co) idx
       = Some (characterImagesOf co ! (idx mod length (characterImagesOf co)))"
proof -
  have b: "noValidKeys []"
    by (simp add: noValidKeys_def orderKeys_Nil)
  have c: "imagesToLoad (parseOrder orderStr) \<noteq> []"
    by (auto simp: imagesToLoad_def defaultCharacterImages_nonempty split: option.splits)
  have d: "characterImagesOf co \<noteq> []"
    by (rule characterImagesOf_nonempty)
  then have e: "idx mod length (characterImagesOf co) < length (characterImagesOf co)"
    by simp
  have f: "selectGlyph (characterImagesOf co) idx
       = Some (characterImagesOf co ! (idx mod length (characterImagesOf co)))"
    using d by (simp add: selectGlyph_def)
  from b c d e f defaultCharacterImages_nonempty show ?thesis by blast
qed

text \<open>
  Claim C6. An order string without a valid key should make the renderer draw from the
  default sequence. The order string \<^verbatim>\<open>constructor\<close> has no valid key, yet \<^verbatim>\<open>parseOrder\<close>
  resolves it, to the member the table inherits from \<^verbatim>\<open>Object.prototype\<close>, and the
  renderer draws every character on that one entry, which is no glyph, instead of the
  default sequence.
\<close>

theorem constructor_order_not_default:
  "noValidKeys ''constructor''
   \<and> parseOrder ''constructor'' = Some [''function Object() { [native code] }'']
   \<and> characterImagesOf (imagesToLoad (parseOrder ''constructor''))
       = [''function Object() { [native code] }'']
   \<and> characterImagesOf (imagesToLoad (parseOrder ''constructor'')) \<noteq> defaultCharacterImages
   \<and> selectGlyph (characterImagesOf (imagesToLoad (parseOrder ''constructor''))) 0
       = Some ''function Object() { [native code] }''"
  by code_simp

section \<open>Properties of the asset cache\<close>

lemma imageToDataUri_hit:
  "imageDataUriCache a p = Some uri \<Longrightarrow> imageToDataUri a p = (uri, a)"
  by (simp add: imageToDataUri_def)

lemma loadImageBuffer_eq:
  "loadImageBuffer a (assetFile p)
     = ((case assetBytes a p of Some buf \<Rightarrow> Inr buf | None \<Rightarrow> Inl ENOENT),
        a\<lparr>calls := calls a @ assetCalls a p\<rparr>)"
  by (simp add: loadImageBuffer_def readFileSync_def assetBytes_def assetCalls_def
      split: option.splits)

lemma imageToDataUri_loaded:
  assumes "imageDataUriCache a p = None" and "assetBytes a p = Some buf"
  shows "imageToDataUri a p
           = (dataUriOf p buf,
              a\<lparr>imageDataUriCache := (imageDataUriCache a)(p \<mapsto> dataUriOf p buf),
                calls := calls a @ assetCalls a p\<rparr>)"
  using assms
  by (simp add: imageToDataUri_def Let_def loadImageBuffer_eq [unfolded assetFile_def]
      dataUriOf_def)

lemma imageToDataUri_failed:
  assumes "imageDataUriCache a p = None" and "assetBytes a p = None"
  shows "imageToDataUri a p = (p, a\<lparr>calls := calls a @ assetCalls a p\<rparr>)"
  using assms
  by (simp add: imageToDataUri_def Let_def loadImageBuffer_eq [unfolded assetFile_def])

lemma asset_calls_update:
  "assetBytes (a\<lparr>calls := cs\<rparr>) p = assetBytes a p"
  "assetCalls (a\<lparr>calls := cs\<rparr>) p = assetCalls a p"
  by (simp_all add: assetBytes_def assetCalls_def split: option.splits)

lemma assetCalls_nonempty: "assetCalls a p \<noteq> []"
  by (simp add: assetCalls_def)

text \<open>
  Claim C5, as the code has it. Two calls of \<^verbatim>\<open>imageToDataUri\<close> for one path, the
  environment unchanged, return the same string. If the path is cached, both calls return
  the cached string and change nothing. If it is not and the asset can be loaded, the
  first call loads it once, returns the data URI of its bytes and caches it under the
  path, and the second call is a pure cache hit: it changes nothing, so nothing is loaded
  again. If the asset cannot be loaded, the first call returns the path itself and caches
  nothing, and the second call attempts the same load again. A load always takes at least
  one call of the pipeline or of \<^verbatim>\<open>readFileSync\<close>.
\<close>

theorem imageToDataUri_twice:
  assumes first: "imageToDataUri a p = (r1, a1)" and second: "imageToDataUri a1 p = (r2, a2)"
  shows "r2 = r1
         \<and> (case imageDataUriCache a p of
               Some uri \<Rightarrow> r1 = uri \<and> a1 = a \<and> a2 = a
             | None \<Rightarrow>
                 (case assetBytes a p of
                    Some buf \<Rightarrow>
                      r1 = dataUriOf p buf
                      \<and> a1 = a\<lparr>imageDataUriCache := (imageDataUriCache a)(p \<mapsto> dataUriOf p buf),
                               calls := calls a @ assetCalls a p\<rparr>
                      \<and> a2 = a1
                  | None \<Rightarrow>
                      r1 = p \<and> a1 = a\<lparr>calls := calls a @ assetCalls a p\<rparr>
                      \<and> a2 = a\<lparr>calls := calls a @ assetCalls a p @ assetCalls a p\<rparr>))
         \<and> assetCalls a p \<noteq> []"
proof (cases "imageDataUriCache a p")
  case (Some uri)
  with first have "r1 = uri" "a1 = a"
    by (simp_all add: imageToDataUri_hit)
  with Some second show ?thesis
    by (simp add: imageToDataUri_hit assetCalls_nonempty)
next
  case None
  show ?thesis
  proof (cases "assetBytes a p")
    case (Some buf)
    from first have r1: "r1 = dataUriOf p buf"
      and a1: "a1 = a\<lparr>imageDataUriCache := (imageDataUriCache a)(p \<mapsto> dataUriOf p buf),
                      calls := calls a @ assetCalls a p\<rparr>"
      by (auto simp: imageToDataUri_loaded [OF None Some])
    have "imageDataUriCache a1 p = Some r1"
      by (simp add: a1 r1)
    from imageToDataUri_hit [OF this] second have "r2 = r1" "a2 = a1"
      by simp_all
    with None Some r1 a1 show ?thesis
      by (simp add: assetCalls_nonempty)
  next
    case Nothing: None
    from first have r1: "r1 = p" and a1: "a1 = a\<lparr>calls := calls a @ assetCalls a p\<rparr>"
      by (auto simp: imageToDataUri_failed [OF None Nothing])
    have c1: "imageDataUriCache a1 p = None" and b1: "assetBytes a1 p = None"
      by (simp_all add: a1 None Nothing asset_calls_update)
    from second have "r2 = p" "a2 = a1\<lparr>calls := calls a1 @ assetCalls a1 p\<rparr>"
      by (auto simp: imageToDataUri_failed [OF c1 b1])
    with None Nothing r1 a1 show ?thesis
      by (simp add: asset_calls_update assetCalls_nonempty)
  qed
qed

lemma stan_fullPath: "assetFile ''/assets/stan.png'' = ''assets/stan.png''"
  by (simp add: assetFile_def path_join_def assetsPath_def basename_def)

lemma stan_bytes:
  "assetBytes stanAssets ''/assets/stan.png'' = Some [77, 97, 110]"
  "assetCalls stanAssets ''/assets/stan.png''
     = [Sharp ''assets/stan.png'', ReadFile ''assets/stan.png'']"
  "assetBytes noAssets ''/assets/stan.png'' = None"
  "assetCalls noAssets ''/assets/stan.png'' = [ReadFile ''assets/stan.png'']"
  by (simp_all add: assetBytes_def assetCalls_def stan_fullPath stanAssets_def noAssets_def)

lemma stan_uri:
  "dataUriOf ''/assets/stan.png'' buf = ''data:image/png;base64,'' @ base64 buf"
  by (simp add: dataUriOf_def endsWith_def)

theorem imageToDataUri_twice_witness:
  "imageToDataUri stanAssets ''/assets/stan.png''
     = (''data:image/png;base64,'' @ base64 [77, 97, 110],
        stanAssets\<lparr>imageDataUriCache :=
            [''/assets/stan.png'' \<mapsto> ''data:image/png;base64,'' @ base64 [77, 97, 110]],
          calls := [Sharp ''assets/stan.png'', ReadFile ''assets/stan.png'']\<rparr>)
   \<and> imageToDataUri (snd (imageToDataUri stanAssets ''/assets/stan.png'')) ''/assets/stan.png''
     = (''data:image/png;base64,'' @ base64 [77, 97, 110],
        snd (imageToDataUri stanAssets ''/assets/stan.png''))
   \<and> imageToDataUri (snd (imageToDataUri noAssets ''/assets/stan.png'')) ''/assets/stan.png''
     = (''/assets/stan.png'',
        noAssets\<lparr>calls := [ReadFile ''assets/stan.png'', ReadFile ''assets/stan.png'']\<rparr>)"
proof -
  let ?p = "''/assets/stan.png''"
  have c: "imageDataUriCache stanAssets ?p = None" "calls stanAssets = []"
    "imageDataUriCache stanAssets = Map.empty"
    "imageDataUriCache noAssets ?p = None" "calls noAssets = []"
    by (simp_all add: stanAssets_def noAssets_def)
  obtain r1 a1 where f: "imageToDataUri stanAssets ?p = (r1, a1)"
    by (cases "imageToDataUri stanAssets ?p")
  obtain r2 a2 where s: "imageToDataUri a1 ?p = (r2, a2)"
    by (cases "imageToDataUri a1 ?p")
  from imageToDataUri_twice [OF f s] f s
  have w1: "imageToDataUri stanAssets ?p
     = (''data:image/png;base64,'' @ base64 [77, 97, 110],
        stanAssets\<lparr>imageDataUriCache :=
            [?p \<mapsto> ''data:image/png;base64,'' @ base64 [77, 97, 110]],
          calls := [Sharp ''assets/stan.png'', ReadFile ''assets/stan.png'']\<rparr>)"
    and w2: "imageToDataUri (snd (imageToDataUri stanAssets ?p)) ?p
     = (''data:image/png;base64,'' @ base64 [77, 97, 110], snd (imageToDataUri stanAssets ?p))"
    by (simp_all add: c stan_bytes stan_uri del: base64.simps)
  obtain r3 a3 where f': "imageToDataUri noAssets ?p = (r3, a3)"
    by (cases "imageToDataUri noAssets ?p")
  obtain r4 a4 where s': "imageToDataUri a3 ?p = (r4, a4)"
    by (cases "imageToDataUri a3 ?p")
  from imageToDataUri_twice [OF f' s'] f' s'
  have w3: "imageToDataUri (snd (imageToDataUri noAssets ?p)) ?p
     = (?p, noAssets\<lparr>calls := [ReadFile ''assets/stan.png'', ReadFile ''assets/stan.png'']\<rparr>)"
    by (simp add: c stan_bytes)
  from w1 w2 w3 show ?thesis by blast
qed

text \<open>
  Claim C5 as stated fails for a path whose file cannot be read: both calls run
  \<^verbatim>\<open>readFileSync\<close>, so the loader runs twice for one path.
\<close>

theorem failed_load_repeated:
  "fst (imageToDataUri noAssets ''/assets/stan.png'') = ''/assets/stan.png''
   \<and> calls (snd (imageToDataUri noAssets ''/assets/stan.png'')) = [ReadFile ''assets/stan.png'']
   \<and> calls (snd (imageToDataUri (snd (imageToDataUri noAssets ''/assets/stan.png''))
        ''/assets/stan.png''))
       = [ReadFile ''assets/stan.png'', ReadFile ''assets/stan.png'']"
  by (simp add: imageToDataUri_def stan_fullPath [unfolded assetFile_def] Let_def
      loadImageBuffer_def readFileSync_def noAssets_def)

section \<open>Properties of the route\<close>

lemma displayStr_render:
  "displayStr (renderSouthParkCounter cache cfg) = displayStrOf (prefix cfg) (value cfg) (padding cfg)"
  by (simp add: renderSouthParkCounter_def Let_def)

lemma getAndIncrementCounter_total: "\<exists>v b'. getAndIncrementCounter b name = Inr (v, b')"
proof -
  obtain store where rs: "readStore b = Inr store"
    using readStore_total by blast
  then show ?thesis
    by (simp add: getAndIncrementCounter_eq [OF rs] Let_def)
qed

lemma peekCounter_total: "\<exists>v. peekCounter b name = Inr v"
  using readStore_total [of b] by (auto simp: peekCounter_def andThen_def)

lemma counterRoute_value:
  assumes "name \<noteq> []" and "length name \<le> 128"
    and "(if num q \<noteq> 0 \<and> num q > 0 then Inr (num q, counters srv)
          else if inc q = 1 then getAndIncrementCounter (counters srv) name
          else andThen (peekCounter (counters srv) name) (\<lambda>v. Inr (v, counters srv)))
         = Inr (v, b')"
  shows "\<exists>svg a'. counterRoute srv name q = Inr (Svg svg, \<lparr>counters = b', assetCache = a'\<rparr>)
           \<and> displayStr svg = displayStrOf (prefix q) v (padding q)"
  using assms
  by (simp add: counterRoute_def andThen_def Let_def displayStr_render del: One_nat_def)

text \<open>
  Claim C1, as the code has it. For a request with a valid name and an override
  \<open>num > 0\<close>, the display string shows \<open>num\<close>, the counter store is left exactly as it was
  and the response does not depend on it: the counter is neither incremented nor read,
  whatever \<open>inc\<close> is. Only without an override is the counter incremented (\<open>inc = 1\<close>) or
  peeked (otherwise), and its value displayed.
\<close>

theorem override_leaves_counter:
  assumes "name \<noteq> []" and "length name \<le> 128"
  shows "(0 < num q \<longrightarrow>
            (\<exists>svg a'. counterRoute srv name q
                        = Inr (Svg svg, \<lparr>counters = counters srv, assetCache = a'\<rparr>)
                      \<and> displayStr svg = displayStrOf (prefix q) (num q) (padding q))
            \<and> map_sum id fst (counterRoute (srv\<lparr>counters := b\<rparr>) name q)
                = map_sum id fst (counterRoute srv name q))
         \<and> (num q \<le> 0 \<and> inc q = 1 \<longrightarrow>
              (\<exists>v b' svg a'. getAndIncrementCounter (counters srv) name = Inr (v, b')
                 \<and> counterRoute srv name q = Inr (Svg svg, \<lparr>counters = b', assetCache = a'\<rparr>)
                 \<and> displayStr svg = displayStrOf (prefix q) v (padding q)))
         \<and> (num q \<le> 0 \<and> inc q \<noteq> 1 \<longrightarrow>
              (\<exists>v svg a'. peekCounter (counters srv) name = Inr v
                 \<and> counterRoute srv name q
                     = Inr (Svg svg, \<lparr>counters = counters srv, assetCache = a'\<rparr>)
                 \<and> displayStr svg = displayStrOf (prefix q) v (padding q)))"
proof -
  have a: "\<exists>svg a'. counterRoute srv name q
                        = Inr (Svg svg, \<lparr>counters = counters srv, assetCache = a'\<rparr>)
                      \<and> displayStr svg = displayStrOf (prefix q) (num q) (padding q)"
    if "0 < num q"
    using that by (intro counterRoute_value assms) simp
  have i: "map_sum id fst (counterRoute (srv\<lparr>counters := b\<rparr>) name q)
                = map_sum id fst (counterRoute srv name q)"
    if "0 < num q"
    using that assms by (simp add: counterRoute_def andThen_def Let_def)
  have c: "\<exists>v b' svg a'. getAndIncrementCounter (counters srv) name = Inr (v, b')
                 \<and> counterRoute srv name q = Inr (Svg svg, \<lparr>counters = b', assetCache = a'\<rparr>)
                 \<and> displayStr svg = displayStrOf (prefix q) v (padding q)"
    if "num q \<le> 0" "inc q = 1"
  proof -
    obtain v b' where g: "getAndIncrementCounter (counters srv) name = Inr (v, b')"
      using getAndIncrementCounter_total by blast
    from that g counterRoute_value [OF assms, of q srv v b'] show ?thesis by auto
  qed
  have d: "\<exists>v svg a'. peekCounter (counters srv) name = Inr v
                 \<and> counterRoute srv name q
                     = Inr (Svg svg, \<lparr>counters = counters srv, assetCache = a'\<rparr>)
                 \<and> displayStr svg = displayStrOf (prefix q) v (padding q)"
    if "num q \<le> 0" "inc q \<noteq> 1"
  proof -
    obtain v where p: "peekCounter (counters srv) name = Inr v"
      using peekCounter_total by blast
    from that p counterRoute_value [OF assms, of q srv v "counters srv"] show ?thesis
      by (auto simp: andThen_def)
  qed
  from a i c d show ?thesis by blast
qed

lemma stan_name: "''stan'' \<noteq> []" "length ''stan'' \<le> 128"
  by simp_all

lemma stan_first_view:
  "getAndIncrementCounter (emptyBackend False) ''stan''
     = Inr (1, (emptyBackend False)\<lparr>jsonFile :=
         Some (Wellformed (JObject [''stan'' \<mapsto> JNumber 1]))\<rparr>)"
  by (auto simp: getAndIncrementCounter_def andThen_def readStore_def writeStore_def
      tryCatch_def fs_readFileSync_def fs_writeFileSync_def
      emptyBackend_def finiteOrZero_def roundToDouble_1 Let_def fun_eq_iff)

lemma stan_peek: "peekCounter (emptyBackend False) ''stan'' = Inr 0"
  by (simp add: peekCounter_eq [OF readStore_empty] finiteOrZero_def)

theorem override_leaves_counter_witness:
  "(\<exists>svg a'. counterRoute freshServer ''stan'' overrideQuery
               = Inr (Svg svg, \<lparr>counters = emptyBackend False, assetCache = a'\<rparr>)
             \<and> displayStr svg = ''0000005'')
   \<and> (\<exists>svg a'. counterRoute freshServer ''stan'' countingQuery
               = Inr (Svg svg,
                   \<lparr>counters = (emptyBackend False)\<lparr>jsonFile :=
                       Some (Wellformed (JObject [''stan'' \<mapsto> JNumber 1]))\<rparr>,
                    assetCache = a'\<rparr>)
             \<and> displayStr svg = ''0000001'')
   \<and> (\<exists>svg a'. counterRoute freshServer ''stan'' peekQuery
               = Inr (Svg svg, \<lparr>counters = emptyBackend False, assetCache = a'\<rparr>)
             \<and> displayStr svg = ''0000000'')"
proof -
  have o: "0 < num overrideQuery" "prefix overrideQuery = []" "num overrideQuery = 5"
    "padding overrideQuery = 7"
    by (simp_all add: overrideQuery_def)
  have c: "num countingQuery \<le> 0 \<and> inc countingQuery = 1" "prefix countingQuery = []"
    "padding countingQuery = 7"
    by (simp_all add: countingQuery_def overrideQuery_def)
  have p: "num peekQuery \<le> 0 \<and> inc peekQuery \<noteq> 1" "prefix peekQuery = []"
    "padding peekQuery = 7"
    by (simp_all add: peekQuery_def overrideQuery_def)
  note d = display_samples(1,4,5)
  have s: "counters freshServer = emptyBackend False"
    by (simp add: freshServer_def)
  from override_leaves_counter [OF stan_name, of overrideQuery freshServer] o d s
  have w1: "\<exists>svg a'. counterRoute freshServer ''stan'' overrideQuery
               = Inr (Svg svg, \<lparr>counters = emptyBackend False, assetCache = a'\<rparr>)
             \<and> displayStr svg = ''0000005''"
    by simp
  from override_leaves_counter [OF stan_name, of countingQuery freshServer] c d s stan_first_view
  have w2: "\<exists>svg a'. counterRoute freshServer ''stan'' countingQuery
               = Inr (Svg svg,
                   \<lparr>counters = (emptyBackend False)\<lparr>jsonFile :=
                       Some (Wellformed (JObject [''stan'' \<mapsto> JNumber 1]))\<rparr>,
                    assetCache = a'\<rparr>)
             \<and> displayStr svg = ''0000001''"
    by simp
  from override_leaves_counter [OF stan_name, of peekQuery freshServer] p d s stan_peek
  have w3: "\<exists>svg a'. counterRoute freshServer ''stan'' peekQuery
               = Inr (Svg svg, \<lparr>counters = emptyBackend False, assetCache = a'\<rparr>)
             \<and> displayStr svg = ''0000000''"
    by simp
  from w1 w2 w3 show ?thesis by blast
qed

text \<open>
  Claim C1 as stated fails: after a request for \<^verbatim>\<open>stan\<close> with \<open>num = 5\<close> and \<open>inc = 1\<close> on
  a fresh server the store is still empty, where an increment would have written
  \<^verbatim>\<open>{"stan": 1}\<close>.
\<close>

theorem override_counter_not_incremented:
  "map_sum id (counters \<circ> snd) (counterRoute freshServer ''stan'' overrideQuery)
     = Inr (emptyBackend False)
   \<and> map_sum id snd (getAndIncrementCounter (emptyBackend False) ''stan'')
     = Inr ((emptyBackend False)\<lparr>jsonFile := Some (Wellformed (JObject [''stan'' \<mapsto> JNumber 1]))\<rparr>)
   \<and> map_sum id (counters \<circ> snd) (counterRoute freshServer ''stan'' overrideQuery)
     \<noteq> map_sum id snd (getAndIncrementCounter (emptyBackend False) ''stan'')"
proof -
  have a: "map_sum id (counters \<circ> snd) (counterRoute freshServer ''stan'' overrideQuery)
     = Inr (emptyBackend False)"
    by (simp add: counterRoute_def andThen_def Let_def freshServer_def overrideQuery_def)
  have b: "map_sum id snd (getAndIncrementCounter (emptyBackend False) ''stan'')
     = Inr ((emptyBackend False)\<lparr>jsonFile := Some (Wellformed (JObject [''stan'' \<mapsto> JNumber 1]))\<rparr>)"
    by (simp add: stan_first_view)
  have c: "emptyBackend False
     \<noteq> (emptyBackend False)\<lparr>jsonFile := Some (Wellformed (JObject [''stan'' \<mapsto> JNumber 1]))\<rparr>"
    by (simp add: emptyBackend_def)
  from a b c show ?thesis by simp
qed

end
